(* ===== verification/Prelude.thy ===== *)
theory Prelude
  imports Main
begin

text \<open>
  Shared vocabulary of the development: the Python exceptions the service can raise, the
  result type that carries them, a bind on results that plays the role of exception
  propagation, and the character classes and decimal digit codecs used by the text
  formats (JSON, JSON lines, Python's \<open>int()\<close> and \<open>float()\<close>).
  Characters are HOL \<open>char\<close>s, i.e.\ the code points U+0000 to U+00FF.
\<close>

section \<open>Collections\<close>

named_theorems codec_simps "evaluation equations of the text codecs"
named_theorems wf_simps "characterisations of the well-formedness predicates"

section \<open>Python exceptions and results\<close>

text \<open>
  The reason a \<open>json.JSONDecodeError\<close> is raised, as in \<^verbatim>\<open>json/decoder.py\<close> and
  \<^verbatim>\<open>json/scanner.py\<close> (positions are not modelled).
\<close>

datatype json_error =
    ExpectingValue
  | ExtraData
  | UnterminatedString
  | InvalidControlCharacter
  | InvalidEscape
  | ExpectingColon
  | ExpectingDelimiter
  | ExpectingPropertyName
  | Unrepresentable  \<comment> \<open>a \<open>\u\<close> escape above U+00FF, outside the modelled alphabet\<close>

datatype py_error =
    JSONDecodeError json_error
  | ValueError
  | TypeError
  | AttributeError
  | OverflowError
  | ModelError  \<comment> \<open>whatever \<open>model.predict\<close> raises\<close>
  | LoadError   \<comment> \<open>whatever \<open>mlflow.pyfunc.load_model\<close> raises\<close>
  | OSError     \<comment> \<open>the operating system refuses a socket or a file\<close>
  | FileNotFoundError
  | BadRequest  \<comment> \<open>\<open>werkzeug.exceptions.BadRequest\<close>, an HTTP exception\<close>

type_synonym 'a result = "py_error + 'a"

fun is_decode_error :: "py_error \<Rightarrow> bool" where
  "is_decode_error (JSONDecodeError j) = True"
| "is_decode_error _ = False"

definition res_bind :: "'e + 'a \<Rightarrow> ('a \<Rightarrow> 'e + 'b) \<Rightarrow> 'e + 'b" where
  "res_bind r f = (case r of Inl e \<Rightarrow> Inl e | Inr a \<Rightarrow> f a)"

lemma res_bind_Inl [simp]: "res_bind (Inl e) f = Inl e"
  by (simp add: res_bind_def)

lemma res_bind_Inr [simp]: "res_bind (Inr a) f = f a"
  by (simp add: res_bind_def)

lemma res_bind_eq_Inr: "res_bind r f = Inr b \<longleftrightarrow> (\<exists>a. r = Inr a \<and> f a = Inr b)"
  by (cases r) auto

lemma res_bind_eq_Inl:
  "res_bind r f = Inl e \<longleftrightarrow> r = Inl e \<or> (\<exists>a. r = Inr a \<and> f a = Inl e)"
  by (cases r) auto

section \<open>Characters\<close>

definition dquote :: char where "dquote = CHR 0x22"
definition bslash :: char where "bslash = CHR 0x5C"

lemma dquote_neq_bslash [simp]: "dquote \<noteq> bslash" "bslash \<noteq> dquote"
  by (simp_all add: dquote_def bslash_def)

text \<open>JSON's \<open>WHITESPACE = [ \t\n\r]*\<close> (\<^verbatim>\<open>json/decoder.py\<close>).\<close>

definition is_json_ws :: "char \<Rightarrow> bool" where
  "is_json_ws c \<longleftrightarrow> c = CHR 0x20 \<or> c = CHR 0x09 \<or> c = CHR 0x0A \<or> c = CHR 0x0D"

text \<open>
  Python's \<open>str.isspace\<close> on U+0000 to U+00FF: \<open>\t \n \v \f \r\<close>, the separators
  U+001C to U+001F, the space, U+0085 and U+00A0. \<open>str.strip()\<close> and \<open>int()\<close> use it.
\<close>

definition py_isspace :: "char \<Rightarrow> bool" where
  "py_isspace c \<longleftrightarrow> (let n = (of_char c :: nat) in
     (9 \<le> n \<and> n \<le> 13) \<or> (28 \<le> n \<and> n \<le> 32) \<or> n = 133 \<or> n = 160)"

definition py_strip :: "string \<Rightarrow> string" where
  "py_strip s = rev (dropWhile py_isspace (rev (dropWhile py_isspace s)))"

lemma dropWhile_all_not: "\<forall>c\<in>set s. \<not> P c \<Longrightarrow> dropWhile P s = s"
  by (induction s) auto

lemma py_strip_id: "\<forall>c\<in>set s. \<not> py_isspace c \<Longrightarrow> py_strip s = s"
  by (simp add: py_strip_def dropWhile_all_not)

lemma json_ws_py_isspace: "is_json_ws c \<Longrightarrow> py_isspace c"
  by (auto simp: is_json_ws_def py_isspace_def)

section \<open>Decimal digits\<close>

definition is_digit :: "char \<Rightarrow> bool" where
  "is_digit c \<longleftrightarrow> (let n = (of_char c :: nat) in 48 \<le> n \<and> n \<le> 57)"

definition digit_val :: "char \<Rightarrow> nat" where
  "digit_val c = of_char c - 48"

definition digit_chr :: "nat \<Rightarrow> char" where
  "digit_chr d = char_of (48 + d)"

lemma digit_val_chr [simp]: "d < 10 \<Longrightarrow> digit_val (digit_chr d) = d"
  by (simp add: digit_val_def digit_chr_def)

lemma is_digit_chr [simp]: "d < 10 \<Longrightarrow> is_digit (digit_chr d)"
  by (simp add: is_digit_def digit_chr_def)

lemma digit_chr_val: "is_digit c \<Longrightarrow> digit_chr (digit_val c) = c"
  by (simp add: is_digit_def digit_val_def digit_chr_def Let_def)

lemma digit_val_less: "is_digit c \<Longrightarrow> digit_val c < 10"
  unfolding is_digit_def digit_val_def Let_def by arith

lemma digit_chr_inj:
  assumes "d < 10" and "e < 10" and "digit_chr d = digit_chr e"
  shows "d = e"
proof -
  have "digit_val (digit_chr d) = digit_val (digit_chr e)"
    using assms(3) by (rule arg_cong)
  with assms(1,2) show ?thesis by simp
qed

lemma digit_chr_0 [simp]: "digit_chr 0 = CHR ''0''"
  unfolding digit_chr_def by code_simp

lemma is_digit_0 [simp]: "is_digit (CHR ''0'')"
  using is_digit_chr [of 0] by simp

lemma digit_val_0 [simp]: "digit_val (CHR ''0'') = 0"
  using digit_val_chr [of 0] by simp

lemma digit_not_ws [simp]: "is_digit c \<Longrightarrow> \<not> is_json_ws c"
  by (auto simp: is_digit_def is_json_ws_def Let_def)

lemma digit_not_space [simp]: "is_digit c \<Longrightarrow> \<not> py_isspace c"
  by (auto simp: is_digit_def py_isspace_def Let_def)

text \<open>The value of a digit string read with an accumulator, most significant first.\<close>

fun digits_val :: "nat \<Rightarrow> string \<Rightarrow> nat" where
  "digits_val acc [] = acc"
| "digits_val acc (c # cs) = digits_val (10 * acc + digit_val c) cs"

lemma digits_val_append [simp]:
  "digits_val acc (xs @ ys) = digits_val (digits_val acc xs) ys"
  by (induction xs arbitrary: acc) auto

lemma digits_val_acc: "digits_val acc xs = acc * 10 ^ length xs + digits_val 0 xs"
proof (induction xs arbitrary: acc)
  case Nil
  then show ?case by simp
next
  case (Cons c cs)
  have "digits_val acc (c # cs) = digits_val (10 * acc + digit_val c) cs"
    by simp
  also have "\<dots> = (10 * acc + digit_val c) * 10 ^ length cs + digits_val 0 cs"
    by (rule Cons.IH)
  also have "\<dots> = acc * 10 ^ length (c # cs) + (digit_val c * 10 ^ length cs + digits_val 0 cs)"
    by (simp add: algebra_simps)
  also have "digit_val c * 10 ^ length cs + digits_val 0 cs = digits_val 0 (c # cs)"
    using Cons.IH [of "digit_val c"] by simp
  finally show ?case .
qed

lemma digits_val_replicate_zero [simp]:
  "digits_val acc (replicate k (CHR ''0'')) = acc * 10 ^ k"
  by (induction k arbitrary: acc) (simp_all add: digit_val_def)

text \<open>Python's \<open>repr\<close> of a non-negative \<open>int\<close>: its decimal digits, no leading zero.\<close>

fun nat_repr :: "nat \<Rightarrow> string" where
  "nat_repr n = (if n < 10 then [digit_chr n] else nat_repr (n div 10) @ [digit_chr (n mod 10)])"

declare nat_repr.simps [simp del]

lemma nat_repr_digits_val [simp]: "digits_val 0 (nat_repr n) = n"
proof (induction n rule: nat_repr.induct)
  case (1 n)
  show ?case
  proof (cases "n < 10")
    case True
    then show ?thesis by (simp add: nat_repr.simps [of n])
  next
    case False
    then have "digits_val 0 (nat_repr n) = 10 * (n div 10) + n mod 10"
      using "1.IH" by (simp add: nat_repr.simps [of n])
    then show ?thesis by simp
  qed
qed

lemma nat_repr_ne [simp]: "nat_repr n \<noteq> []"
  by (subst nat_repr.simps) simp

lemma nat_repr_digits: "c \<in> set (nat_repr n) \<Longrightarrow> is_digit c"
proof (induction n rule: nat_repr.induct)
  case (1 n)
  then show ?case
    by (cases "n < 10") (auto simp: nat_repr.simps [of n])
qed

lemma nat_repr_hd: "nat_repr n = c # cs \<Longrightarrow> c = CHR ''0'' \<Longrightarrow> n = 0 \<and> cs = []"
proof (induction n arbitrary: c cs rule: nat_repr.induct)
  case (1 n)
  show ?case
  proof (cases "n < 10")
    case True
    with "1.prems" have "digit_chr n = digit_chr 0" and "cs = []"
      by (auto simp: nat_repr.simps [of n])
    with True show ?thesis using digit_chr_inj [of n 0] by simp
  next
    case False
    then obtain cs' where "nat_repr (n div 10) = c # cs'"
      using "1.prems"(1) by (cases "nat_repr (n div 10)") (auto simp: nat_repr.simps [of n])
    with "1.IH" False "1.prems"(2) have "n div 10 = 0" by blast
    with False show ?thesis by simp
  qed
qed

lemmas digit_simps = digit_val_chr is_digit_chr digit_val_less digit_chr_val

end
