(* ===== verification/Py_Num.thy ===== *)
theory Py_Num
  imports Prelude
begin

text \<open>
  Python numbers as the service sees them. A Python \<open>int\<close> is an unbounded \<open>int\<close>.
  A Python \<open>float\<close> is modelled by the decimal its \<open>repr\<close> prints (the shortest
  decimal that reads back to the same double), kept normalised: a mantissa that is not
  a multiple of ten, or zero with exponent zero. NaN and the two infinities are
  constructors of their own. The sign of a zero float is not modelled.
  This theory also holds \<open>repr\<close> of both kinds (\<^verbatim>\<open>Objects/longobject.c\<close>,
  \<^verbatim>\<open>Python/pystrtod.c\<close> with \<open>repr\<close> style \<open>'r'\<close>) and \<open>int()\<close> on a string.
\<close>

datatype pyfloat =
    Fin int int  \<comment> \<open>\<open>Fin m e\<close> is \<open>m * 10 ^ e\<close>\<close>
  | NaN
  | PosInf
  | NegInf

section \<open>Normalised decimals\<close>

function norm_dec :: "int \<Rightarrow> int \<Rightarrow> int \<times> int" where
  "norm_dec m e =
     (if m = 0 then (0, 0) else if m mod 10 = 0 then norm_dec (m div 10) (e + 1) else (m, e))"
  by pat_completeness auto
termination
  by (relation "measure (\<lambda>(m, e). nat \<bar>m\<bar>)") auto

declare norm_dec.simps [simp del]

fun wf_float :: "pyfloat \<Rightarrow> bool" where
  "wf_float (Fin m e) \<longleftrightarrow> (if m = 0 then e = 0 else m mod 10 \<noteq> 0)"
| "wf_float _ \<longleftrightarrow> True"

definition mk_float :: "int \<Rightarrow> int \<Rightarrow> pyfloat" where
  "mk_float m e = (case norm_dec m e of (m', e') \<Rightarrow> Fin m' e')"

lemma norm_dec_wf: "norm_dec m e = (m', e') \<Longrightarrow> wf_float (Fin m' e')"
proof (induction m e rule: norm_dec.induct)
  case (1 m e)
  consider "m = 0" | "m \<noteq> 0" "m mod 10 = 0" | "m \<noteq> 0" "m mod 10 \<noteq> 0"
    by blast
  then show ?case
  proof cases
    case 1
    from "1.prems" 1 show ?thesis by (simp add: norm_dec.simps [of 0 e])
  next
    case 2
    with "1.prems" have "norm_dec (m div 10) (e + 1) = (m', e')"
      by (simp add: norm_dec.simps [of m e])
    with 2 show ?thesis by (rule "1.IH")
  next
    case 3
    with "1.prems" show ?thesis by (simp add: norm_dec.simps [of m e])
  qed
qed

lemma mk_float_wf [simp]: "wf_float (mk_float m e)"
proof -
  obtain m' e' where "norm_dec m e = (m', e')"
    by (cases "norm_dec m e")
  moreover from this have "wf_float (Fin m' e')" by (rule norm_dec_wf)
  ultimately show ?thesis by (simp add: mk_float_def)
qed

lemma norm_dec_wf_id: "wf_float (Fin m e) \<Longrightarrow> norm_dec m e = (m, e)"
  by (subst norm_dec.simps) (simp split: if_splits)

lemma norm_dec_shift: "m mod 10 \<noteq> 0 \<Longrightarrow> norm_dec (m * 10 ^ k) e = (m, e + int k)"
proof (induction k arbitrary: e)
  case 0
  then show ?case by (subst norm_dec.simps) auto
next
  case (Suc k)
  have nz: "m * 10 ^ Suc k \<noteq> 0" using Suc.prems by auto
  have "norm_dec (m * 10 ^ Suc k) e = norm_dec (m * 10 ^ k) (e + 1)"
    using nz by (subst norm_dec.simps) (simp add: mult.left_commute)
  also have "\<dots> = (m, e + int (Suc k))"
    using Suc by simp
  finally show ?case .
qed

lemma mk_float_shift:
  assumes "wf_float (Fin m e)"
  shows "mk_float (m * 10 ^ k) (e - int k) = Fin m e"
proof (cases "m = 0")
  case True
  with assms show ?thesis
    by (simp add: mk_float_def norm_dec.simps)
next
  case False
  with assms have "m mod 10 \<noteq> 0" by simp
  then show ?thesis by (simp add: mk_float_def norm_dec_shift)
qed

section \<open>The range of a double\<close>

text \<open>
  The range of a double: a decimal at least \<open>2^1024 - 2^970\<close> in magnitude rounds to an
  infinity, one at most \<open>2^-1075\<close> to zero (\<open>float()\<close> of \<^verbatim>\<open>Python/dtoa.c\<close>).
  Rounding inside the range is not modelled: the decimal is kept exactly.
\<close>

definition dec_overflows :: "int \<Rightarrow> int \<Rightarrow> bool" where
  "dec_overflows m e \<longleftrightarrow>
     (if 0 \<le> e then \<bar>m\<bar> * 10 ^ nat e \<ge> 2 ^ 1024 - 2 ^ 970
      else \<bar>m\<bar> \<ge> (2 ^ 1024 - 2 ^ 970) * 10 ^ nat (- e))"

definition dec_underflows :: "int \<Rightarrow> int \<Rightarrow> bool" where
  "dec_underflows m e \<longleftrightarrow> m \<noteq> 0 \<and> e < 0 \<and> \<bar>m\<bar> * 2 ^ 1075 \<le> 10 ^ nat (- e)"

definition float_of_dec :: "int \<Rightarrow> int \<Rightarrow> pyfloat" where
  "float_of_dec m e = (case norm_dec m e of (m', e') \<Rightarrow>
     if dec_overflows m' e' then (if m' < 0 then NegInf else PosInf)
     else if dec_underflows m' e' then Fin 0 0
     else Fin m' e')"

text \<open>
  The values a Python float can take: a normalised decimal inside the range of a double
  (what \<open>repr\<close> of a double prints), NaN or an infinity.
\<close>

definition is_double :: "pyfloat \<Rightarrow> bool" where
  "is_double f \<longleftrightarrow> wf_float f \<and>
     (case f of Fin m e \<Rightarrow> \<not> dec_overflows m e \<and> \<not> dec_underflows m e | _ \<Rightarrow> True)"

lemma float_of_dec_is_double: "is_double (float_of_dec m e)"
proof -
  obtain m' e' where n: "norm_dec m e = (m', e')" by (cases "norm_dec m e")
  then have "wf_float (Fin m' e')" by (rule norm_dec_wf)
  with n show ?thesis
    by (auto simp: float_of_dec_def is_double_def dec_overflows_def dec_underflows_def)
qed

lemma float_of_dec_double:
  assumes "is_double (Fin m e)"
  shows "float_of_dec (m * 10 ^ k) (e - int k) = Fin m e"
proof -
  have "norm_dec (m * 10 ^ k) (e - int k) = (m, e)"
  proof (cases "m = 0")
    case True
    with assms show ?thesis by (simp add: is_double_def norm_dec.simps [of 0])
  next
    case False
    with assms have "m mod 10 \<noteq> 0" by (simp add: is_double_def)
    then show ?thesis by (simp add: norm_dec_shift)
  qed
  with assms show ?thesis by (simp add: float_of_dec_def is_double_def)
qed

section \<open>repr\<close>

definition int_repr :: "int \<Rightarrow> string" where
  "int_repr i = (if i < 0 then CHR ''-'' # nat_repr (nat (- i)) else nat_repr (nat i))"

text \<open>The exponent of the scientific form has at least two digits (\<open>'%+.02d'\<close>).\<close>

definition exp_repr :: "int \<Rightarrow> string" where
  "exp_repr x = (if x < 0 then CHR ''-'' else CHR ''+'') #
     (if \<bar>x\<bar> < 10 then CHR ''0'' # nat_repr (nat \<bar>x\<bar>) else nat_repr (nat \<bar>x\<bar>))"

text \<open>
  \<open>float_repr_style = 'short'\<close>: with \<open>D\<close> the digits and \<open>p\<close> the position of the
  decimal point, fixed notation when \<open>-4 < p \<le> 16\<close> (with \<open>.0\<close> added to a whole
  number), scientific notation otherwise.
\<close>

definition fin_repr :: "int \<Rightarrow> int \<Rightarrow> string" where
  "fin_repr m e =
     (let D = nat_repr (nat \<bar>m\<bar>); n = int (length D); p = n + e;
          body = (if -4 < p \<and> p \<le> 16 then
                    (if p \<le> 0 then ''0.'' @ replicate (nat (- p)) (CHR ''0'') @ D
                     else if p < n then take (nat p) D @ ''.'' @ drop (nat p) D
                     else D @ replicate (nat (p - n)) (CHR ''0'') @ ''.0'')
                  else hd D # (if n = 1 then [] else CHR ''.'' # tl D) @ CHR ''e'' # exp_repr (p - 1))
      in if m < 0 then CHR ''-'' # body else body)"

fun float_repr :: "pyfloat \<Rightarrow> string" where
  "float_repr (Fin m e) = fin_repr m e"
| "float_repr NaN = ''nan''"
| "float_repr PosInf = ''inf''"
| "float_repr NegInf = ''-inf''"

section \<open>int() of a string\<close>

text \<open>
  \<open>int(s)\<close> in base 10 (\<^verbatim>\<open>PyLong_FromUnicodeObject\<close>): surrounding whitespace is
  stripped, one sign is allowed, then decimal digits where single underscores may separate
  two digits; leading zeros are allowed. Anything else raises \<open>ValueError\<close>.
  \<open>us_digits prev s\<close> checks the digit part; \<open>prev\<close> records that the previous
  character was a digit.
\<close>

fun us_digits :: "bool \<Rightarrow> string \<Rightarrow> bool" where
  "us_digits prev [] \<longleftrightarrow> prev"
| "us_digits prev (c # cs) \<longleftrightarrow>
     (if is_digit c then us_digits True cs else c = CHR ''_'' \<and> prev \<and> us_digits False cs)"

definition split_sign :: "string \<Rightarrow> bool \<times> string" where
  "split_sign s = (case s of c # cs \<Rightarrow>
      if c = CHR ''-'' then (True, cs) else if c = CHR ''+'' then (False, cs) else (False, s)
    | [] \<Rightarrow> (False, []))"

definition py_int :: "string \<Rightarrow> int result" where
  "py_int s =
     (case split_sign (py_strip s) of (neg, body) \<Rightarrow>
        if us_digits False body
        then (let v = int (digits_val 0 (filter is_digit body)) in Inr (if neg then - v else v))
        else Inl ValueError)"

lemma us_digits_all_digits: "\<forall>c\<in>set s. is_digit c \<Longrightarrow> us_digits prev s \<longleftrightarrow> prev \<or> s \<noteq> []"
  by (induction s arbitrary: prev) auto

lemma nat_repr_us_digits: "us_digits False (nat_repr n)"
  using nat_repr_digits by (subst us_digits_all_digits) auto

lemma nat_repr_filter: "filter is_digit (nat_repr n) = nat_repr n"
  using nat_repr_digits by (simp add: filter_id_conv)

lemma nat_repr_strip: "py_strip (nat_repr n) = nat_repr n"
  using nat_repr_digits by (auto intro: py_strip_id)

lemma minus_not_space [simp]: "\<not> py_isspace (CHR ''-'')"
  by (simp add: py_isspace_def Let_def)

lemma int_repr_chars: "c \<in> set (int_repr i) \<Longrightarrow> c = CHR ''-'' \<or> is_digit c"
  unfolding int_repr_def by (cases "i < 0") (auto dest: nat_repr_digits)

lemma int_repr_strip: "py_strip (int_repr i) = int_repr i"
  by (rule py_strip_id) (metis int_repr_chars minus_not_space digit_not_space)

section \<open>float() of a string\<close>

text \<open>
  \<open>float(s)\<close> (\<^verbatim>\<open>Objects/floatobject.c\<close>, \<open>_Py_string_to_number_with_underscores\<close>):
  surrounding whitespace stripped, one sign, then \<open>inf\<close>, \<open>infinity\<close> or \<open>nan\<close> in any
  case, or a decimal \<open>digits [. [digits]] | . digits\<close> with an optional exponent
  \<open>[eE] [sign] digits\<close>, where single underscores may separate digits.
\<close>

definition lower_chr :: "char \<Rightarrow> char" where
  "lower_chr c = (if 65 \<le> (of_char c :: nat) \<and> (of_char c :: nat) \<le> 90 then char_of (of_char c + (32::nat)) else c)"

definition opt_digits :: "string \<Rightarrow> bool" where
  "opt_digits s \<longleftrightarrow> s = [] \<or> us_digits False s"

text \<open>The decimal part as mantissa and exponent, \<open>None\<close> when it is malformed.\<close>

definition parse_decimal :: "string \<Rightarrow> (int \<times> int) option" where
  "parse_decimal s =
     (let mant = takeWhile (\<lambda>c. c \<noteq> CHR ''e'' \<and> c \<noteq> CHR ''E'') s;
          ex = dropWhile (\<lambda>c. c \<noteq> CHR ''e'' \<and> c \<noteq> CHR ''E'') s;
          ip = takeWhile (\<lambda>c. c \<noteq> CHR ''.'') mant;
          rest = dropWhile (\<lambda>c. c \<noteq> CHR ''.'') mant;
          fp = drop 1 rest;
          xv = (case ex of [] \<Rightarrow> Some 0
                | _ # x \<Rightarrow> (case split_sign x of (neg, ds) \<Rightarrow>
                    if us_digits False ds
                    then Some (let v = int (digits_val 0 (filter is_digit ds)) in if neg then - v else v)
                    else None))
      in if opt_digits ip \<and> opt_digits fp \<and> CHR ''.'' \<notin> set fp \<and> (ip \<noteq> [] \<or> fp \<noteq> [])
         then (case xv of
                 None \<Rightarrow> None
               | Some x \<Rightarrow> Some (int (digits_val 0 (filter is_digit (ip @ fp))),
                                 x - int (length (filter is_digit fp))))
         else None)"

definition py_float_str :: "string \<Rightarrow> pyfloat result" where
  "py_float_str s =
     (case split_sign (py_strip s) of (neg, body) \<Rightarrow>
        let lb = map lower_chr body in
        if lb = ''inf'' \<or> lb = ''infinity'' then Inr (if neg then NegInf else PosInf)
        else if lb = ''nan'' then Inr NaN
        else case parse_decimal body of
          None \<Rightarrow> Inl ValueError
        | Some (m, e) \<Rightarrow> Inr (float_of_dec (if neg then - m else m) e))"

section \<open>int() reads back repr\<close>

lemma split_sign_digit: "s \<noteq> [] \<Longrightarrow> is_digit (hd s) \<Longrightarrow> split_sign s = (False, s)"
  by (cases s) (auto simp: split_sign_def is_digit_def)

lemma nat_repr_hd_digit: "is_digit (hd (nat_repr n))"
  using nat_repr_digits [of "hd (nat_repr n)" n] by simp

lemma py_int_nat_repr: "py_int (nat_repr n) = Inr (int n)"
  by (simp add: py_int_def nat_repr_strip split_sign_digit nat_repr_hd_digit
      nat_repr_us_digits nat_repr_filter)

lemma py_int_int_repr: "py_int (int_repr i) = Inr i"
proof (cases "i < 0")
  case True
  then have "split_sign (py_strip (int_repr i)) = (True, nat_repr (nat (- i)))"
    by (simp add: int_repr_strip) (simp add: int_repr_def split_sign_def)
  with True show ?thesis
    by (simp add: py_int_def nat_repr_us_digits nat_repr_filter)
next
  case False
  then show ?thesis
    using py_int_nat_repr [of "nat i"] by (simp add: int_repr_def)
qed

end
