(* ===== verification/Json.thy ===== *)
theory Json
  imports Py_Num "HOL-Library.List_Lexorder" "HOL-Library.Char_ord"
begin

text \<open>
  The Python values that cross the service's JSON boundary (\<open>None\<close>, \<open>bool\<close>,
  \<open>int\<close>, \<open>float\<close>, \<open>str\<close>, \<open>list\<close>, \<open>dict\<close> with string keys), Python's
  \<open>dict(pairs)\<close>, and the encoder \<open>json.dumps\<close> with the options Flask's
  \<open>DefaultJSONProvider\<close> passes (\<open>ensure_ascii=True\<close>, \<open>sort_keys=True\<close>, and
  \<open>indent=2\<close> when the app runs in debug mode, as \<^verbatim>\<open>src/.ipynb_checkpoints/inference-checkpoint.py\<close>
  does). A dict is an association list in insertion order.
\<close>

datatype pyval =
    PNone
  | PBool bool
  | PInt int
  | PFloat pyfloat
  | PStr string
  | PList "pyval list"
  | PDict "(string \<times> pyval) list"

section \<open>Dictionaries\<close>

text \<open>\<open>d[k] = v\<close>: a present key keeps its position and takes the new value.\<close>

fun dict_set :: "string \<Rightarrow> 'v \<Rightarrow> (string \<times> 'v) list \<Rightarrow> (string \<times> 'v) list" where
  "dict_set k v [] = [(k, v)]"
| "dict_set k v ((k', v') # kvs) =
     (if k = k' then (k, v) # kvs else (k', v') # dict_set k v kvs)"

text \<open>\<open>dict(pairs)\<close>: later duplicates overwrite earlier ones.\<close>

definition dict_of_pairs :: "(string \<times> 'v) list \<Rightarrow> (string \<times> 'v) list" where
  "dict_of_pairs ps = foldl (\<lambda>d (k, v). dict_set k v d) [] ps"

lemma dict_set_absent: "k \<notin> set (map fst kvs) \<Longrightarrow> dict_set k v kvs = kvs @ [(k, v)]"
  by (induction kvs) auto

lemma dict_of_pairs_distinct_aux:
  "distinct (map fst (d @ ps)) \<Longrightarrow> foldl (\<lambda>d (k, v). dict_set k v d) d ps = d @ ps"
proof (induction ps arbitrary: d)
  case Nil
  then show ?case by simp
next
  case (Cons p ps)
  obtain k v where p: "p = (k, v)" by (cases p)
  with Cons.prems have "k \<notin> set (map fst d)" by auto
  then have "dict_set k v d = d @ [(k, v)]" by (rule dict_set_absent)
  moreover have "foldl (\<lambda>d (k, v). dict_set k v d) (d @ [(k, v)]) ps = (d @ [(k, v)]) @ ps"
    using Cons.prems p by (intro Cons.IH) simp
  ultimately show ?case using p by simp
qed

lemma dict_of_pairs_distinct: "distinct (map fst ps) \<Longrightarrow> dict_of_pairs ps = ps"
  using dict_of_pairs_distinct_aux [of "[]" ps] by (simp add: dict_of_pairs_def)

lemma dict_set_keys: "fst ` set (dict_set k v kvs) = insert k (fst ` set kvs)"
  by (induction k v kvs rule: dict_set.induct) (simp_all add: insert_commute)

lemma dict_set_distinct: "distinct (map fst kvs) \<Longrightarrow> distinct (map fst (dict_set k v kvs))"
  by (induction kvs) (auto simp: dict_set_keys)

section \<open>Well-formed values\<close>

text \<open>A value Python can hold: dict keys are distinct and floats are normalised.\<close>

fun wf_val :: "pyval \<Rightarrow> bool" where
  "wf_val (PFloat f) = wf_float f"
| "wf_val (PList vs) = list_all wf_val vs"
| "wf_val (PDict kvs) = (distinct (map fst kvs) \<and> list_all (\<lambda>(k, v). wf_val v) kvs)"
| "wf_val PNone = True"
| "wf_val (PBool b) = True"
| "wf_val (PInt i) = True"
| "wf_val (PStr s) = True"

section \<open>Encoding\<close>

record dump_opts =
  indent :: "nat option"
  item_sep :: string
  key_sep :: string
  sort_keys :: bool

text \<open>
  Flask's \<open>DefaultJSONProvider.response\<close> in debug mode: \<open>indent=2\<close>, hence
  \<open>json.dumps\<close>'s separators \<open>(',', ': ')\<close>; keys sorted.
\<close>

definition flask_debug_opts :: dump_opts where
  "flask_debug_opts = \<lparr>indent = Some 2, item_sep = '','', key_sep = '': '', sort_keys = True\<rparr>"

text \<open>\<open>encode_basestring_ascii\<close> (\<^verbatim>\<open>Modules/_json.c\<close>, \<open>ascii_escape_unichar\<close>).\<close>

definition hex_chr :: "nat \<Rightarrow> char" where
  "hex_chr d = (if d < 10 then digit_chr d else char_of (87 + d))"

definition esc_char :: "char \<Rightarrow> string" where
  "esc_char c =
     (if c = bslash then [bslash, bslash]
      else if c = dquote then [bslash, dquote]
      else if c = CHR 0x08 then [bslash, CHR ''b'']
      else if c = CHR 0x0C then [bslash, CHR ''f'']
      else if c = CHR 0x0A then [bslash, CHR ''n'']
      else if c = CHR 0x0D then [bslash, CHR ''r'']
      else if c = CHR 0x09 then [bslash, CHR ''t'']
      else if 32 \<le> (of_char c :: nat) \<and> (of_char c :: nat) \<le> 126 then [c]
      else [bslash, CHR ''u'', CHR ''0'', CHR ''0'',
            hex_chr (of_char c div 16), hex_chr (of_char c mod 16)])"

definition enc_str :: "string \<Rightarrow> string" where
  "enc_str s = dquote # concat (map esc_char s) @ [dquote]"

text \<open>\<open>floatstr\<close> of \<^verbatim>\<open>json/encoder.py\<close> with \<open>allow_nan=True\<close>.\<close>

fun float_str :: "pyfloat \<Rightarrow> string" where
  "float_str NaN = ''NaN''"
| "float_str PosInf = ''Infinity''"
| "float_str NegInf = ''-Infinity''"
| "float_str (Fin m e) = fin_repr m e"

definition newline_indent :: "dump_opts \<Rightarrow> nat \<Rightarrow> string" where
  "newline_indent opts l =
     (case indent opts of None \<Rightarrow> [] | Some k \<Rightarrow> CHR 0x0A # replicate (k * l) (CHR '' ''))"

text \<open>\<open>sep.join(xs)\<close>.\<close>

fun join :: "string \<Rightarrow> string list \<Rightarrow> string" where
  "join sep [] = []"
| "join sep [x] = x"
| "join sep (x # y # ys) = x @ sep @ join sep (y # ys)"

text \<open>\<open>_iterencode\<close> at nesting level \<open>l\<close>.\<close>

fun enc :: "dump_opts \<Rightarrow> nat \<Rightarrow> pyval \<Rightarrow> string" where
  "enc opts l PNone = ''null''"
| "enc opts l (PBool b) = (if b then ''true'' else ''false'')"
| "enc opts l (PInt i) = int_repr i"
| "enc opts l (PFloat f) = float_str f"
| "enc opts l (PStr s) = enc_str s"
| "enc opts l (PList vs) =
     (if vs = [] then ''[]''
      else CHR ''['' # newline_indent opts (Suc l) @
        join (item_sep opts @ newline_indent opts (Suc l)) (map (enc opts (Suc l)) vs) @
        newline_indent opts l @ '']'')"
| "enc opts l (PDict kvs) =
     (if kvs = [] then ''{}''
      else CHR ''{'' # newline_indent opts (Suc l) @
        join (item_sep opts @ newline_indent opts (Suc l))
          (map (\<lambda>(k, v). enc_str k @ key_sep opts @ enc opts (Suc l) v) kvs) @
        newline_indent opts l @ ''}'')"

text \<open>\<open>sort_keys=True\<close>: every dict's items are emitted in key order.\<close>

fun sort_dicts :: "pyval \<Rightarrow> pyval" where
  "sort_dicts (PList vs) = PList (map sort_dicts vs)"
| "sort_dicts (PDict kvs) = PDict (sort_key fst (map (\<lambda>(k, v). (k, sort_dicts v)) kvs))"
| "sort_dicts PNone = PNone"
| "sort_dicts (PBool b) = PBool b"
| "sort_dicts (PInt i) = PInt i"
| "sort_dicts (PFloat f) = PFloat f"
| "sort_dicts (PStr s) = PStr s"

definition dumps :: "dump_opts \<Rightarrow> pyval \<Rightarrow> string" where
  "dumps opts v = enc opts 0 (if sort_keys opts then sort_dicts v else v)"

end
