(* ===== verification/Json_Decode.thy ===== *)
theory Json_Decode
  imports Json
begin

text \<open>
  \<open>json.loads\<close> as Flask's \<open>request.get_json\<close> calls it, following CPython's C
  accelerator \<^verbatim>\<open>Modules/_json.c\<close> (\<open>scan_once_unicode\<close>, \<open>scanstring_unicode\<close>
  with \<open>strict=True\<close>, \<open>_match_number_unicode\<close>) and \<^verbatim>\<open>json/decoder.py\<close>
  (\<open>JSONObject\<close>, \<open>JSONArray\<close>, \<open>JSONDecoder.decode\<close>). A scanner takes the
  remaining input and returns the value and the input after it. The nested scanners
  \<open>scan_value\<close>, \<open>scan_elems\<close> and \<open>scan_members\<close> carry fuel; \<open>None\<close> means the
  fuel ran out, and \<open>loads\<close> gives enough fuel for that never to happen
  (\<open>scan_value_enough_fuel\<close>).
\<close>

definition skip_ws :: "string \<Rightarrow> string" where
  "skip_ws s = dropWhile is_json_ws s"

section \<open>Strings\<close>

definition hex_val :: "char \<Rightarrow> nat option" where
  "hex_val c = (let n = (of_char c :: nat) in
     if 48 \<le> n \<and> n \<le> 57 then Some (n - 48)
     else if 97 \<le> n \<and> n \<le> 102 then Some (n - 87)
     else if 65 \<le> n \<and> n \<le> 70 then Some (n - 55) else None)"

fun hex4 :: "string \<Rightarrow> nat option" where
  "hex4 (a # b # c # d # _) =
     (case (hex_val a, hex_val b, hex_val c, hex_val d) of
        (Some w, Some x, Some y, Some z) \<Rightarrow> Some (((w * 16 + x) * 16 + y) * 16 + z)
      | _ \<Rightarrow> None)"
| "hex4 _ = None"

definition simple_escape :: "char \<Rightarrow> char option" where
  "simple_escape e =
     (if e = dquote then Some dquote
      else if e = bslash then Some bslash
      else if e = CHR ''/'' then Some (CHR ''/'')
      else if e = CHR ''b'' then Some (CHR 0x08)
      else if e = CHR ''f'' then Some (CHR 0x0C)
      else if e = CHR ''n'' then Some (CHR 0x0A)
      else if e = CHR ''r'' then Some (CHR 0x0D)
      else if e = CHR ''t'' then Some (CHR 0x09)
      else None)"

text \<open>
  The body of a string after its opening quote, characters collected in reverse. A
  \<open>\u\<close> escape needs four hex digits and at least one character after them
  (\<open>end >= len\<close> is an invalid escape in \<open>scanstring_unicode\<close>).
\<close>

fun scan_str :: "string \<Rightarrow> string \<Rightarrow> (string \<times> string) result" where
  "scan_str acc [] = Inl (JSONDecodeError UnterminatedString)"
| "scan_str acc (c # s) =
     (if c = dquote then Inr (rev acc, s)
      else if c = bslash then
        (case s of
           [] \<Rightarrow> Inl (JSONDecodeError UnterminatedString)
         | e # s' \<Rightarrow>
             if e = CHR ''u'' then
               (if length s' \<le> 4 then Inl (JSONDecodeError InvalidEscape)
                else case hex4 s' of
                  None \<Rightarrow> Inl (JSONDecodeError InvalidEscape)
                | Some u \<Rightarrow> if u < 256 then scan_str (char_of u # acc) (drop 4 s')
                            else Inl (JSONDecodeError Unrepresentable))
             else (case simple_escape e of
                     None \<Rightarrow> Inl (JSONDecodeError InvalidEscape)
                   | Some ch \<Rightarrow> scan_str (ch # acc) s'))
      else if (of_char c :: nat) < 32 then Inl (JSONDecodeError InvalidControlCharacter)
      else scan_str (c # acc) s)"

section \<open>Numbers\<close>

definition scan_int_part :: "string \<Rightarrow> (string \<times> string) option" where
  "scan_int_part s = (case s of
      c # r \<Rightarrow> if c = CHR ''0'' then Some (''0'', r)
               else if is_digit c then Some (c # takeWhile is_digit r, dropWhile is_digit r)
               else None
    | [] \<Rightarrow> None)"

definition scan_frac :: "string \<Rightarrow> string \<times> string" where
  "scan_frac s = (case s of
      c # d # r \<Rightarrow> if c = CHR ''.'' \<and> is_digit d
                   then (d # takeWhile is_digit r, dropWhile is_digit r) else ([], s)
    | _ \<Rightarrow> ([], s))"

definition scan_exp :: "string \<Rightarrow> int option \<times> string" where
  "scan_exp s = (case s of
      c # r \<Rightarrow>
        if c = CHR ''e'' \<or> c = CHR ''E'' then
          (case split_sign r of (neg, r') \<Rightarrow>
             if takeWhile is_digit r' \<noteq> []
             then (let x = int (digits_val 0 (takeWhile is_digit r'))
                   in (Some (if neg then - x else x), dropWhile is_digit r'))
             else (None, s))
        else (None, s)
    | [] \<Rightarrow> (None, s))"

text \<open>\<open>-?(0|[1-9][0-9]*)(\.[0-9]+)?([eE][-+]?[0-9]+)?\<close>: an \<open>int\<close> without fraction and exponent, a \<open>float\<close> otherwise.\<close>

definition scan_number :: "string \<Rightarrow> (pyval \<times> string) option" where
  "scan_number s =
     (let (neg, s1) = (case s of c # r \<Rightarrow> if c = CHR ''-'' then (True, r) else (False, s)
                                | [] \<Rightarrow> (False, s))
      in case scan_int_part s1 of
           None \<Rightarrow> None
         | Some (ip, r1) \<Rightarrow>
             (case scan_frac r1 of (fp, r2) \<Rightarrow>
              case scan_exp r2 of (x, r3) \<Rightarrow>
                if fp = [] \<and> x = None
                then Some (PInt (let v = int (digits_val 0 ip) in if neg then - v else v), r3)
                else (let m = int (digits_val 0 (ip @ fp)); m' = (if neg then - m else m);
                          x' = (case x of None \<Rightarrow> 0 | Some k \<Rightarrow> k)
                      in Some (PFloat (float_of_dec m' (x' - int (length fp))), r3))))"

text \<open>The named constants and numbers of \<open>scan_once_unicode\<close>.\<close>

definition scan_atom :: "string \<Rightarrow> (pyval \<times> string) result" where
  "scan_atom s =
     (if take 4 s = ''null'' then Inr (PNone, drop 4 s)
      else if take 4 s = ''true'' then Inr (PBool True, drop 4 s)
      else if take 5 s = ''false'' then Inr (PBool False, drop 5 s)
      else case scan_number s of
        Some x \<Rightarrow> Inr x
      | None \<Rightarrow>
          if take 3 s = ''NaN'' then Inr (PFloat NaN, drop 3 s)
          else if take 8 s = ''Infinity'' then Inr (PFloat PosInf, drop 8 s)
          else if take 9 s = ''-Infinity'' then Inr (PFloat NegInf, drop 9 s)
          else Inl (JSONDecodeError ExpectingValue))"

section \<open>Values\<close>

definition scan_string :: "string \<Rightarrow> (pyval \<times> string) result" where
  "scan_string r = (case scan_str [] r of Inl e \<Rightarrow> Inl e | Inr (str, r') \<Rightarrow> Inr (PStr str, r'))"

fun scan_value :: "nat \<Rightarrow> string \<Rightarrow> (pyval \<times> string) result option"
and scan_elems :: "nat \<Rightarrow> pyval list \<Rightarrow> string \<Rightarrow> (pyval \<times> string) result option"
and scan_members ::
  "nat \<Rightarrow> (string \<times> pyval) list \<Rightarrow> string \<Rightarrow> (pyval \<times> string) result option"
where
  "scan_value 0 s = None"
| "scan_value (Suc n) [] = Some (Inl (JSONDecodeError ExpectingValue))"
| "scan_value (Suc n) (c # r) =
     (if c = dquote then Some (scan_string r)
      else if c = CHR ''{'' then
        (case skip_ws r of
           d # t \<Rightarrow> if d = CHR ''}'' then Some (Inr (PDict [], t))
                    else if d = dquote then scan_members n [] (d # t)
                    else Some (Inl (JSONDecodeError ExpectingPropertyName))
         | [] \<Rightarrow> Some (Inl (JSONDecodeError ExpectingPropertyName)))
      else if c = CHR ''['' then
        (case skip_ws r of
           d # t \<Rightarrow> if d = CHR '']'' then Some (Inr (PList [], t)) else scan_elems n [] (d # t)
         | [] \<Rightarrow> scan_elems n [] [])
      else Some (scan_atom (c # r)))"
| "scan_elems 0 acc t = None"
| "scan_elems (Suc n) acc t =
     (case scan_value n t of
        None \<Rightarrow> None
      | Some (Inl e) \<Rightarrow> Some (Inl e)
      | Some (Inr (v, r)) \<Rightarrow>
          (case skip_ws r of
             d # r' \<Rightarrow>
               if d = CHR '']'' then Some (Inr (PList (rev (v # acc)), r'))
               else if d = CHR '','' then scan_elems n (v # acc) (skip_ws r')
               else Some (Inl (JSONDecodeError ExpectingDelimiter))
           | [] \<Rightarrow> Some (Inl (JSONDecodeError ExpectingDelimiter))))"
| "scan_members 0 acc t = None"
| "scan_members (Suc n) acc t =
     (case t of
        d # t' \<Rightarrow>
          if d \<noteq> dquote then Some (Inl (JSONDecodeError ExpectingPropertyName))
          else (case scan_str [] t' of
            Inl e \<Rightarrow> Some (Inl e)
          | Inr (k, r) \<Rightarrow>
              (case skip_ws r of
                 c # r' \<Rightarrow>
                   if c \<noteq> CHR '':'' then Some (Inl (JSONDecodeError ExpectingColon))
                   else (case scan_value n (skip_ws r') of
                     None \<Rightarrow> None
                   | Some (Inl e) \<Rightarrow> Some (Inl e)
                   | Some (Inr (v, r2)) \<Rightarrow>
                       (case skip_ws r2 of
                          c2 # r3 \<Rightarrow>
                            if c2 = CHR ''}''
                            then Some (Inr (PDict (dict_of_pairs (rev ((k, v) # acc))), r3))
                            else if c2 = CHR '','' then
                              (case skip_ws r3 of
                                 c3 # r4 \<Rightarrow>
                                   if c3 = dquote then scan_members n ((k, v) # acc) (c3 # r4)
                                   else Some (Inl (JSONDecodeError ExpectingPropertyName))
                               | [] \<Rightarrow> Some (Inl (JSONDecodeError ExpectingPropertyName)))
                            else Some (Inl (JSONDecodeError ExpectingDelimiter))
                        | [] \<Rightarrow> Some (Inl (JSONDecodeError ExpectingDelimiter))))
               | [] \<Rightarrow> Some (Inl (JSONDecodeError ExpectingColon))))
      | [] \<Rightarrow> Some (Inl (JSONDecodeError ExpectingPropertyName)))"

text \<open>
  \<open>JSONDecoder.decode\<close>: leading whitespace, one value, trailing whitespace, and
  nothing else (\<open>Extra data\<close>). The fuel \<open>2 * length t + 2\<close> is enough for every
  input (\<open>scan_value_enough_fuel\<close>), so the \<open>None\<close> branch is never taken.
\<close>

definition loads :: "string \<Rightarrow> pyval result" where
  "loads s =
     (let t = skip_ws s in
      case scan_value (2 * length t + 2) t of
        None \<Rightarrow> Inl (JSONDecodeError ExpectingValue)
      | Some (Inl e) \<Rightarrow> Inl e
      | Some (Inr (v, r)) \<Rightarrow> if skip_ws r = [] then Inr v else Inl (JSONDecodeError ExtraData))"

section \<open>Every scanner consumes input\<close>

lemma skip_ws_length: "length (skip_ws s) \<le> length s"
  by (simp add: skip_ws_def length_dropWhile_le)

lemma skip_ws_Cons_length: "skip_ws s = d # t \<Longrightarrow> length t < length s"
  using skip_ws_length [of s] by simp

lemma scan_str_length: "scan_str acc s = Inr (x, r) \<Longrightarrow> length r < length s"
proof (induction acc s rule: scan_str.induct)
  case (1 acc)
  then show ?case by simp
next
  case (2 acc c s)
  consider (quote) "c = dquote" | (esc) "c \<noteq> dquote" "c = bslash"
    | (other) "c \<noteq> dquote" "c \<noteq> bslash"
    by blast
  then show ?case
  proof cases
    case quote
    with "2.prems" show ?thesis by simp
  next
    case esc
    with "2.prems" obtain e s' where s: "s = e # s'"
      by (cases s) auto
    show ?thesis
    proof (cases "e = CHR ''u''")
      case True
      with esc s "2.prems" obtain u where "\<not> length s' \<le> 4" "hex4 s' = Some u" "u < 256"
        and rec: "scan_str (char_of u # acc) (drop 4 s') = Inr (x, r)"
        by (auto split: if_splits option.splits)
      with "2.IH"(1) esc s True have "length r < length (drop 4 s')" by blast
      with s show ?thesis by simp
    next
      case False
      with esc s "2.prems" obtain ch where "simple_escape e = Some ch"
        and rec: "scan_str (ch # acc) s' = Inr (x, r)"
        by (auto split: option.splits)
      with "2.IH"(2) esc s False have "length r < length s'" by blast
      with s show ?thesis by simp
    qed
  next
    case other
    with "2.prems" have "scan_str (c # acc) s = Inr (x, r)"
      by (simp split: if_splits)
    with "2.IH"(3) other "2.prems" have "length r < length s"
      by (simp split: if_splits)
    then show ?thesis by simp
  qed
qed

lemma scan_int_part_length: "scan_int_part s = Some (ip, r) \<Longrightarrow> length r < length s"
  by (auto simp: scan_int_part_def length_dropWhile_le less_Suc_eq_le
      split: list.splits if_splits)

lemma scan_frac_length: "scan_frac s = (fp, r) \<Longrightarrow> length r \<le> length s"
  by (auto simp: scan_frac_def split: list.splits if_splits)
    (metis length_dropWhile_le le_SucI)

lemma split_sign_length: "split_sign s = (neg, r) \<Longrightarrow> length r \<le> length s"
  by (auto simp: split_sign_def split: list.splits if_splits)

lemma scan_exp_length: "scan_exp s = (x, r) \<Longrightarrow> length r \<le> length s"
proof (cases s)
  case (Cons c cs)
  moreover obtain neg r' where sp: "split_sign cs = (neg, r')" by (cases "split_sign cs")
  moreover have "length (dropWhile is_digit r') \<le> length cs"
    using split_sign_length [OF sp] length_dropWhile_le [of is_digit r'] by simp
  moreover assume "scan_exp s = (x, r)"
  ultimately show ?thesis
    by (auto simp: scan_exp_def Let_def split: if_splits)
qed (simp add: scan_exp_def)

lemma scan_number_length: "scan_number s = Some (v, r) \<Longrightarrow> length r < length s"
proof -
  assume sn: "scan_number s = Some (v, r)"
  obtain neg s1 where sg: "(case s of c # r \<Rightarrow> if c = CHR ''-'' then (True, r) else (False, s)
                                | [] \<Rightarrow> (False, s)) = (neg, s1)"
    by (cases "case s of c # r \<Rightarrow> if c = CHR ''-'' then (True, r) else (False, s) | [] \<Rightarrow> (False, s)")
  then have s1: "length s1 \<le> length s"
    by (auto split: list.splits if_splits)
  from sn sg obtain ip r1 where ip: "scan_int_part s1 = Some (ip, r1)"
    by (auto simp: scan_number_def split: option.splits)
  obtain fp r2 where fp: "scan_frac r1 = (fp, r2)" by (cases "scan_frac r1")
  obtain x r3 where ex: "scan_exp r2 = (x, r3)" by (cases "scan_exp r2")
  from sn sg ip fp ex have "r = r3"
    by (auto simp: scan_number_def Let_def split: if_splits)
  moreover have "length r3 < length s"
    using scan_int_part_length [OF ip] scan_frac_length [OF fp] scan_exp_length [OF ex] s1
    by linarith
  ultimately show ?thesis by simp
qed

lemma take_eq_length:
  assumes "take k s = w" and "length w = k" and "0 < k"
  shows "length (drop k s) < length s"
proof -
  have "k \<le> length s"
    using assms(1,2) length_take [of k s] by simp
  with assms(3) show ?thesis by simp
qed

lemma scan_atom_length: "scan_atom s = Inr (v, r) \<Longrightarrow> length r < length s"
  by (auto simp: scan_atom_def split: if_splits option.splits
      dest: scan_number_length take_eq_length)

lemma scan_string_length: "scan_string s = Inr (v, r) \<Longrightarrow> length r < length s"
  by (auto simp: scan_string_def split: sum.splits dest: scan_str_length)

section \<open>Fuel\<close>

text \<open>Inversion of a successful or fuel-exhausted scan, one layer of each scanner.\<close>

lemma scan_value_Inr:
  assumes "scan_value (Suc n) (c # r) = Some (Inr (v, rest))"
  shows "(c = dquote \<and> scan_string r = Inr (v, rest)) \<or>
    (c = CHR ''{'' \<and> (skip_ws r = CHR ''}'' # rest \<and> v = PDict [] \<or>
       (\<exists>t. skip_ws r = dquote # t \<and> scan_members n [] (dquote # t) = Some (Inr (v, rest))))) \<or>
    (c = CHR ''['' \<and> (skip_ws r = CHR '']'' # rest \<and> v = PList [] \<or>
       scan_elems n [] (skip_ws r) = Some (Inr (v, rest)))) \<or>
    (c \<noteq> dquote \<and> c \<noteq> CHR ''{'' \<and> c \<noteq> CHR ''['' \<and> scan_atom (c # r) = Inr (v, rest))"
  using assms by (auto split: if_splits list.splits)

lemma scan_elems_Inr:
  assumes "scan_elems (Suc n) acc t = Some (Inr (v, rest))"
  shows "\<exists>v1 r r'. scan_value n t = Some (Inr (v1, r)) \<and>
    (skip_ws r = CHR '']'' # rest \<and> v = PList (rev (v1 # acc)) \<or>
     skip_ws r = CHR '','' # r' \<and> scan_elems n (v1 # acc) (skip_ws r') = Some (Inr (v, rest)))"
  using assms by (auto split: if_splits list.splits option.splits sum.splits)

lemma scan_members_Inr:
  assumes "scan_members (Suc n) ps t = Some (Inr (v, rest))"
  shows "\<exists>t' k r r' v1 r2 r3 r4. t = dquote # t' \<and> scan_str [] t' = Inr (k, r) \<and>
    skip_ws r = CHR '':'' # r' \<and> scan_value n (skip_ws r') = Some (Inr (v1, r2)) \<and>
    (skip_ws r2 = CHR ''}'' # rest \<and> v = PDict (dict_of_pairs (rev ((k, v1) # ps))) \<or>
     skip_ws r2 = CHR '','' # r3 \<and> skip_ws r3 = dquote # r4 \<and>
       scan_members n ((k, v1) # ps) (dquote # r4) = Some (Inr (v, rest)))"
  using assms by (auto split: if_splits list.splits option.splits sum.splits)

lemma scan_consumes_aux:
  "(\<forall>s v rest. scan_value n s = Some (Inr (v, rest)) \<longrightarrow> length rest < length s) \<and>
   (\<forall>acc t v rest. scan_elems n acc t = Some (Inr (v, rest)) \<longrightarrow> length rest < length t) \<and>
   (\<forall>ps t v rest. scan_members n ps t = Some (Inr (v, rest)) \<longrightarrow> length rest < length t)"
proof (induction n)
  case 0
  show ?case by simp
next
  case (Suc n)
  then have IHv: "\<And>s v rest. scan_value n s = Some (Inr (v, rest)) \<Longrightarrow> length rest < length s"
    and IHe: "\<And>acc t v rest. scan_elems n acc t = Some (Inr (v, rest)) \<Longrightarrow> length rest < length t"
    and IHm: "\<And>ps t v rest. scan_members n ps t = Some (Inr (v, rest)) \<Longrightarrow> length rest < length t"
    by blast+
  have V: "length rest < length s" if a: "scan_value (Suc n) s = Some (Inr (v, rest))" for s v rest
  proof (cases s)
    case Nil
    with a show ?thesis by simp
  next
    case (Cons c r)
    have sk: "length (skip_ws r) \<le> length r" by (rule skip_ws_length)
    have sk2: "\<forall>d t. skip_ws r = d # t \<longrightarrow> length t < length r"
      using skip_ws_Cons_length by blast
    have sk3: "\<forall>x. x < length (skip_ws r) \<longrightarrow> x < Suc (length r)"
      using sk by auto
    from a have "scan_value (Suc n) (c # r) = Some (Inr (v, rest))"
      by (simp only: Cons)
    from scan_value_Inr [OF this] Cons show ?thesis
      using scan_string_length [of r v rest]
        scan_atom_length [of "c # r" v rest] IHe [of "[]" "skip_ws r" v rest]
        IHm [of "[]" "skip_ws r" v rest] sk2 sk3
      by auto
  qed
  have E: "length rest < length t" if a: "scan_elems (Suc n) acc t = Some (Inr (v, rest))"
    for acc t v rest
  proof -
    obtain v1 r r' where sv: "scan_value n t = Some (Inr (v1, r))"
      and alt: "skip_ws r = CHR '']'' # rest \<and> v = PList (rev (v1 # acc)) \<or>
           skip_ws r = CHR '','' # r' \<and> scan_elems n (v1 # acc) (skip_ws r') = Some (Inr (v, rest))"
      using scan_elems_Inr [OF a] by blast
    have "length r < length t" using IHv [OF sv] .
    with alt show ?thesis
      using IHe [of "v1 # acc" "skip_ws r'" v rest] skip_ws_length [of r']
      by (auto dest: skip_ws_Cons_length)
  qed
  have M: "length rest < length t" if a: "scan_members (Suc n) ps t = Some (Inr (v, rest))"
    for ps t v rest
  proof -
    obtain t' k r r' v1 r2 r3 r4 where t: "t = dquote # t'" and k: "scan_str [] t' = Inr (k, r)"
      and c: "skip_ws r = CHR '':'' # r'" and sv: "scan_value n (skip_ws r') = Some (Inr (v1, r2))"
      and alt: "skip_ws r2 = CHR ''}'' # rest \<and> v = PDict (dict_of_pairs (rev ((k, v1) # ps))) \<or>
           skip_ws r2 = CHR '','' # r3 \<and> skip_ws r3 = dquote # r4 \<and>
           scan_members n ((k, v1) # ps) (dquote # r4) = Some (Inr (v, rest))"
      using scan_members_Inr [OF a] by blast
    have "length r2 < length t"
      using scan_str_length [OF k] skip_ws_Cons_length [OF c] IHv [OF sv] skip_ws_length [of r'] t
      by simp
    with alt show ?thesis
      using IHm [of "(k, v1) # ps" "dquote # r4" v rest]
      by (auto dest!: skip_ws_Cons_length)
  qed
  from V E M show ?case by blast
qed

lemma scan_value_consumes: "scan_value n s = Some (Inr (v, rest)) \<Longrightarrow> length rest < length s"
  using scan_consumes_aux by blast

lemma scan_value_None:
  assumes "scan_value (Suc n) (c # r) = None"
  shows "(c = CHR ''{'' \<and> (\<exists>t. skip_ws r = dquote # t \<and> scan_members n [] (dquote # t) = None)) \<or>
    (c = CHR ''['' \<and> scan_elems n [] (skip_ws r) = None)"
  using assms by (auto split: if_splits list.splits)

lemma scan_elems_None:
  assumes "scan_elems (Suc n) acc t = None"
  shows "scan_value n t = None \<or> (\<exists>v1 r r'. scan_value n t = Some (Inr (v1, r)) \<and>
    skip_ws r = CHR '','' # r' \<and> scan_elems n (v1 # acc) (skip_ws r') = None)"
  using assms by (auto split: if_splits list.splits option.splits sum.splits)

lemma scan_members_None:
  assumes "scan_members (Suc n) ps t = None"
  shows "\<exists>t' k r r'. t = dquote # t' \<and> scan_str [] t' = Inr (k, r) \<and> skip_ws r = CHR '':'' # r' \<and>
    (scan_value n (skip_ws r') = None \<or>
     (\<exists>v1 r2 r3 r4. scan_value n (skip_ws r') = Some (Inr (v1, r2)) \<and> skip_ws r2 = CHR '','' # r3 \<and>
        skip_ws r3 = dquote # r4 \<and> scan_members n ((k, v1) # ps) (dquote # r4) = None))"
  using assms by (auto split: if_splits list.splits option.splits sum.splits)

lemma scan_fuel_aux:
  "(\<forall>s. 2 * length s < n \<longrightarrow> scan_value n s \<noteq> None) \<and>
   (\<forall>acc t. 2 * length t + 1 < n \<longrightarrow> scan_elems n acc t \<noteq> None) \<and>
   (\<forall>ps t. 2 * length t + 1 < n \<longrightarrow> scan_members n ps t \<noteq> None)"
proof (induction n)
  case 0
  show ?case by simp
next
  case (Suc n)
  then have IHv: "\<And>s. 2 * length s < n \<Longrightarrow> scan_value n s \<noteq> None"
    and IHe: "\<And>acc t. 2 * length t + 1 < n \<Longrightarrow> scan_elems n acc t \<noteq> None"
    and IHm: "\<And>ps t. 2 * length t + 1 < n \<Longrightarrow> scan_members n ps t \<noteq> None"
    by blast+
  have V: "scan_value (Suc n) s \<noteq> None" if f: "2 * length s < Suc n" for s
  proof
    assume a: "scan_value (Suc n) s = None"
    then obtain c r where s: "s = c # r" by (cases s) auto
    from a have "scan_value (Suc n) (c # r) = None" by (simp only: s)
    then show False
    proof (rule scan_value_None [THEN disjE])
      assume "c = CHR ''{'' \<and> (\<exists>t. skip_ws r = dquote # t \<and> scan_members n [] (dquote # t) = None)"
      then obtain t where t: "skip_ws r = dquote # t" and m: "scan_members n [] (dquote # t) = None"
        by blast
      have "length t < length r" using skip_ws_Cons_length [OF t] .
      with f s have "2 * length (dquote # t) + 1 < n" by simp
      with IHm m show False by blast
    next
      assume "c = CHR ''['' \<and> scan_elems n [] (skip_ws r) = None"
      moreover have "2 * length (skip_ws r) + 1 < n"
        using f s skip_ws_length [of r] by simp
      ultimately show False using IHe by blast
    qed
  qed
  have E: "scan_elems (Suc n) acc t \<noteq> None" if f: "2 * length t + 1 < Suc n" for acc t
  proof
    assume a: "scan_elems (Suc n) acc t = None"
    have "scan_value n t \<noteq> None" using IHv f by simp
    with scan_elems_None [OF a] obtain v1 r r' where sv: "scan_value n t = Some (Inr (v1, r))"
      and c: "skip_ws r = CHR '','' # r'" and e: "scan_elems n (v1 # acc) (skip_ws r') = None"
      by blast
    have "length r < length t" by (rule scan_value_consumes [OF sv])
    moreover have "length r' < length r" by (rule skip_ws_Cons_length [OF c])
    moreover have "length (skip_ws r') \<le> length r'" by (rule skip_ws_length)
    ultimately have "2 * length (skip_ws r') + 1 < n" using f by linarith
    with IHe e show False by blast
  qed
  have M: "scan_members (Suc n) ps t \<noteq> None" if f: "2 * length t + 1 < Suc n" for ps t
  proof
    assume a: "scan_members (Suc n) ps t = None"
    obtain t' k r r' where t: "t = dquote # t'" and k: "scan_str [] t' = Inr (k, r)"
      and c: "skip_ws r = CHR '':'' # r'"
      and alt: "scan_value n (skip_ws r') = None \<or>
        (\<exists>v1 r2 r3 r4. scan_value n (skip_ws r') = Some (Inr (v1, r2)) \<and> skip_ws r2 = CHR '','' # r3 \<and>
          skip_ws r3 = dquote # r4 \<and> scan_members n ((k, v1) # ps) (dquote # r4) = None)"
      using scan_members_None [OF a] by blast
    have l1: "length (skip_ws r') < length t"
      using scan_str_length [OF k] skip_ws_Cons_length [OF c] skip_ws_length [of r'] t by simp
    from alt show False
    proof
      assume "scan_value n (skip_ws r') = None"
      moreover have "2 * length (skip_ws r') < n" using l1 f by linarith
      ultimately show False using IHv by blast
    next
      assume "\<exists>v1 r2 r3 r4. scan_value n (skip_ws r') = Some (Inr (v1, r2)) \<and> skip_ws r2 = CHR '','' # r3 \<and>
          skip_ws r3 = dquote # r4 \<and> scan_members n ((k, v1) # ps) (dquote # r4) = None"
      then obtain v1 r2 r3 r4 where sv: "scan_value n (skip_ws r') = Some (Inr (v1, r2))"
        and c2: "skip_ws r2 = CHR '','' # r3" and c3: "skip_ws r3 = dquote # r4"
        and m: "scan_members n ((k, v1) # ps) (dquote # r4) = None"
        by blast
      have "length r2 < length (skip_ws r')" by (rule scan_value_consumes [OF sv])
      moreover have "length r3 < length r2" by (rule skip_ws_Cons_length [OF c2])
      moreover have "length r4 < length r3" by (rule skip_ws_Cons_length [OF c3])
      ultimately have "2 * length (dquote # r4) + 1 < n" using l1 f by simp
      with IHm m show False by blast
    qed
  qed
  from V E M show ?case by blast
qed

lemma scan_value_enough_fuel: "2 * length s < n \<Longrightarrow> scan_value n s \<noteq> None"
  using scan_fuel_aux by blast

lemma scan_mono_aux:
  "(\<forall>s x m. scan_value n s = Some x \<longrightarrow> n \<le> m \<longrightarrow> scan_value m s = Some x) \<and>
   (\<forall>acc t x m. scan_elems n acc t = Some x \<longrightarrow> n \<le> m \<longrightarrow> scan_elems m acc t = Some x) \<and>
   (\<forall>ps t x m. scan_members n ps t = Some x \<longrightarrow> n \<le> m \<longrightarrow> scan_members m ps t = Some x)"
proof (induction n)
  case 0
  show ?case by simp
next
  case (Suc n)
  then have IHv: "\<And>s x m. scan_value n s = Some x \<Longrightarrow> n \<le> m \<Longrightarrow> scan_value m s = Some x"
    and IHe: "\<And>acc t x m. scan_elems n acc t = Some x \<Longrightarrow> n \<le> m \<Longrightarrow> scan_elems m acc t = Some x"
    and IHm: "\<And>ps t x m. scan_members n ps t = Some x \<Longrightarrow> n \<le> m \<Longrightarrow> scan_members m ps t = Some x"
    by blast+
  have V: "scan_value (Suc m) s = Some x" if a: "scan_value (Suc n) s = Some x" and le: "n \<le> m" for s x m
  proof (cases s)
    case Nil
    with a show ?thesis by simp
  next
    case (Cons c r)
    have a': "scan_value (Suc n) (c # r) = Some x" using a Cons by simp
    consider "c = dquote" | "c \<noteq> dquote" "c = CHR ''{''"
      | "c \<noteq> dquote" "c \<noteq> CHR ''{''" "c = CHR ''[''"
      | "c \<noteq> dquote" "c \<noteq> CHR ''{''" "c \<noteq> CHR ''[''"
      by blast
    then show ?thesis
    proof cases
      case 1
      with a' Cons show ?thesis by simp
    next
      case 2
      with a' show ?thesis unfolding Cons
        by (cases "skip_ws r") (auto split: if_splits intro: IHm [OF _ le])
    next
      case 3
      with a' show ?thesis unfolding Cons
        by (cases "skip_ws r") (auto split: if_splits intro: IHe [OF _ le])
    next
      case 4
      with a' Cons show ?thesis by simp
    qed
  qed
  have E: "scan_elems (Suc m) acc t = Some x" if a: "scan_elems (Suc n) acc t = Some x" and le: "n \<le> m"
    for acc t x m
  proof (cases "scan_value n t")
    case None
    with a show ?thesis by simp
  next
    case (Some y)
    then have "scan_value m t = Some y" using IHv le by blast
    with Some a show ?thesis
      by (auto split: sum.splits list.splits if_splits intro: IHe [OF _ le])
  qed
  have M: "scan_members (Suc m) ps t = Some x" if a: "scan_members (Suc n) ps t = Some x" and le: "n \<le> m"
    for ps t x m
    using a
    by (auto split: list.splits if_splits sum.splits option.splits
        dest!: IHv [OF _ le] IHm [OF _ le])
  show ?case
  proof (intro conjI allI impI)
    fix s x m assume h: "scan_value (Suc n) s = Some x" "Suc n \<le> m"
    then obtain m' where "m = Suc m'" "n \<le> m'" by (cases m) auto
    with V [OF h(1)] show "scan_value m s = Some x" by blast
  next
    fix acc t x m assume h: "scan_elems (Suc n) acc t = Some x" "Suc n \<le> m"
    then obtain m' where "m = Suc m'" "n \<le> m'" by (cases m) auto
    with E [OF h(1)] show "scan_elems m acc t = Some x" by blast
  next
    fix ps t x m assume h: "scan_members (Suc n) ps t = Some x" "Suc n \<le> m"
    then obtain m' where "m = Suc m'" "n \<le> m'" by (cases m) auto
    with M [OF h(1)] show "scan_members m ps t = Some x" by blast
  qed
qed

lemma scan_value_mono: "scan_value n s = Some x \<Longrightarrow> n \<le> m \<Longrightarrow> scan_value m s = Some x"
  using scan_mono_aux by blast

lemma scan_elems_mono: "scan_elems n acc t = Some x \<Longrightarrow> n \<le> m \<Longrightarrow> scan_elems m acc t = Some x"
  using scan_mono_aux by blast

lemma scan_members_mono: "scan_members n ps t = Some x \<Longrightarrow> n \<le> m \<Longrightarrow> scan_members m ps t = Some x"
  using scan_mono_aux by blast

text \<open>Once a scan has enough fuel to finish, its result does not depend on the fuel.\<close>

lemma scan_value_fuel_indep:
  assumes "scan_value n s = Some x" and "2 * length s < m"
  shows "scan_value m s = Some x"
proof -
  obtain y where y: "scan_value m s = Some y"
    using scan_value_enough_fuel [OF assms(2)] by blast
  have "scan_value (max n m) s = Some x"
    using scan_value_mono [OF assms(1)] by simp
  moreover have "scan_value (max n m) s = Some y"
    using scan_value_mono [OF y] by simp
  ultimately show ?thesis using y by simp
qed


section \<open>Every error is a JSONDecodeError\<close>

lemma scan_str_error: "scan_str acc s = Inl e \<Longrightarrow> is_decode_error e"
  by (induction acc s rule: scan_str.induct) (auto split: if_splits list.splits option.splits)

lemma scan_string_error: "scan_string s = Inl e \<Longrightarrow> is_decode_error e"
  by (auto simp: scan_string_def split: sum.splits dest: scan_str_error)

lemma scan_atom_error: "scan_atom s = Inl e \<Longrightarrow> is_decode_error e"
  by (auto simp: scan_atom_def split: if_splits option.splits)

lemma scan_errors_aux:
  "(\<forall>s e. scan_value n s = Some (Inl e) \<longrightarrow> is_decode_error e) \<and>
   (\<forall>acc t e. scan_elems n acc t = Some (Inl e) \<longrightarrow> is_decode_error e) \<and>
   (\<forall>ps t e. scan_members n ps t = Some (Inl e) \<longrightarrow> is_decode_error e)"
proof (induction n)
  case 0
  show ?case by simp
next
  case (Suc n)
  then have IHv: "\<And>s e. scan_value n s = Some (Inl e) \<Longrightarrow> is_decode_error e"
    and IHe: "\<And>acc t e. scan_elems n acc t = Some (Inl e) \<Longrightarrow> is_decode_error e"
    and IHm: "\<And>ps t e. scan_members n ps t = Some (Inl e) \<Longrightarrow> is_decode_error e"
    by blast+
  have V: "is_decode_error e" if a: "scan_value (Suc n) s = Some (Inl e)" for s e
    using a IHe IHm scan_string_error scan_atom_error
    by (cases s) (auto split: if_splits list.splits)
  have E: "is_decode_error e" if a: "scan_elems (Suc n) acc t = Some (Inl e)" for acc t e
    using a IHv IHe by (auto split: if_splits list.splits option.splits sum.splits)
  have M: "is_decode_error e" if a: "scan_members (Suc n) ps t = Some (Inl e)" for ps t e
    using a IHv IHm scan_str_error by (auto split: if_splits list.splits option.splits sum.splits)
  from V E M show ?case by blast
qed

lemma loads_error: "loads s = Inl e \<Longrightarrow> is_decode_error e"
  using scan_errors_aux by (auto simp: loads_def Let_def split: option.splits sum.splits if_splits)


end
