(* ===== verification/Frame.thy ===== *)
theory Frame
  imports Json_Decode
begin

text \<open>
  \<open>pandas.read_json(data, lines=True, dtype=schema)\<close> as line 28 of
  \<^verbatim>\<open>src/.ipynb_checkpoints/inference-checkpoint.py\<close> calls it, after pandas 1.x/2.x
  \<^verbatim>\<open>pandas/io/json/_json.py\<close>: a string argument is first read as a URL or a path when it
  is one (\<open>_get_data_from_filepath\<close>), and only otherwise as literal JSON; the text is cut
  at newlines, each line stripped, empty lines dropped and the rest joined into one JSON
  array (\<open>_combine_lines\<close>); that array becomes a \<open>DataFrame\<close>; every column named in
  \<open>dtype\<close> is cast with \<open>astype\<close>, and a cast that raises \<open>TypeError\<close> or
  \<open>ValueError\<close> is silently dropped (\<open>_try_convert_data\<close>). The JSON text is read
  with \<open>loads\<close> (pandas uses \<open>ujson\<close>, whose 64-bit integer limit is not modelled).
  A frame is column-major; a missing field is the float \<open>NaN\<close>.
\<close>

section \<open>Frames\<close>

datatype collabel = Name string | Pos nat

record frame =
  columns :: "(collabel \<times> pyval list) list"
  nrows :: nat

definition empty_frame :: frame where
  "empty_frame = \<lparr>columns = [], nrows = 0\<rparr>"

definition wf_frame :: "frame \<Rightarrow> bool" where
  "wf_frame df \<longleftrightarrow> list_all (\<lambda>(l, c). length c = nrows df) (columns df) \<and>
     distinct (map fst (columns df))"

definition column :: "frame \<Rightarrow> collabel \<Rightarrow> pyval list option" where
  "column df l = map_of (columns df) l"

text \<open>Keys in order of first appearance (\<open>fast_unique_multiple_list_gen\<close>, \<open>sort=False\<close>).\<close>

fun uniq :: "'a list \<Rightarrow> 'a list" where
  "uniq [] = []"
| "uniq (x # xs) = x # uniq (filter (\<lambda>y. y \<noteq> x) xs)"

definition record_cell :: "(string \<times> pyval) list \<Rightarrow> string \<Rightarrow> pyval" where
  "record_cell d k = (case map_of d k of None \<Rightarrow> PFloat NaN | Some v \<Rightarrow> v)"

definition frame_of_records :: "(string \<times> pyval) list list \<Rightarrow> frame" where
  "frame_of_records ds =
     \<lparr>columns = map (\<lambda>k. (Name k, map (\<lambda>d. record_cell d k) ds)) (uniq (concat (map (map fst) ds))),
      nrows = length ds\<rparr>"

definition frame_of_rows :: "pyval list list \<Rightarrow> frame" where
  "frame_of_rows rs =
     \<lparr>columns = map (\<lambda>i. (Pos i, map (\<lambda>r. if i < length r then r ! i else PNone) rs))
                  [0..<fold max (map length rs) 0],
      nrows = length rs\<rparr>"

fun is_dict :: "pyval \<Rightarrow> bool" where
  "is_dict (PDict _) = True"
| "is_dict _ = False"

fun is_list :: "pyval \<Rightarrow> bool" where
  "is_list (PList _) = True"
| "is_list _ = False"

fun dict_items :: "pyval \<Rightarrow> (string \<times> pyval) list" where
  "dict_items (PDict kvs) = kvs"
| "dict_items _ = []"

fun list_items :: "pyval \<Rightarrow> pyval list" where
  "list_items (PList vs) = vs"
| "list_items _ = []"

text \<open>
  \<open>DataFrame(data)\<close> for a list \<open>data\<close>: the first element decides between records
  (dicts), rows (lists) and a single column of scalars. Records mixed with other elements
  raise (\<open>_list_of_dict_to_arrays\<close>), as do rows mixed with other elements.
\<close>

definition dataframe :: "pyval list \<Rightarrow> frame result" where
  "dataframe xs = (case xs of
      [] \<Rightarrow> Inr empty_frame
    | x # _ \<Rightarrow>
        if is_dict x then
          (if list_all is_dict xs then Inr (frame_of_records (map dict_items xs)) else Inl TypeError)
        else if is_list x then
          (if list_all is_list xs then Inr (frame_of_rows (map list_items xs)) else Inl TypeError)
        else Inr \<lparr>columns = [(Pos 0, xs)], nrows = length xs\<rparr>)"

section \<open>Where the text comes from\<close>

text \<open>
  The file system and the network as the process sees them: the contents of the files
  that exist, and what fetching a URL yields (\<open>None\<close>: the fetch fails).
\<close>

record io_env =
  files :: "string \<rightharpoonup> string"
  urls :: "string \<rightharpoonup> string"

text \<open>\<open>urllib.parse\<close>'s \<open>uses_relative + uses_netloc + uses_params\<close> without \<open>''\<close>.\<close>

definition valid_url_schemes :: "string list" where
  "valid_url_schemes = [''ftp'', ''http'', ''gopher'', ''nntp'', ''imap'', ''wais'', ''file'',
     ''https'', ''shttp'', ''mms'', ''prospero'', ''rtsp'', ''rtsps'', ''rtspu'', ''sftp'', ''svn'',
     ''svn+ssh'', ''ws'', ''wss'', ''telnet'', ''snews'', ''rsync'', ''nfs'', ''git'', ''git+ssh'',
     ''itms-services'', ''hdl'', ''sip'', ''sips'', ''tel'']"

definition is_alpha :: "char \<Rightarrow> bool" where
  "is_alpha c \<longleftrightarrow> (let n = (of_char c :: nat) in (65 \<le> n \<and> n \<le> 90) \<or> (97 \<le> n \<and> n \<le> 122))"

definition scheme_chr :: "char \<Rightarrow> bool" where
  "scheme_chr c \<longleftrightarrow> is_alpha c \<or> is_digit c \<or> c \<in> set ''+-.''"

text \<open>\<open>urlparse(s).scheme\<close>: the text before the first colon, lower-cased, if it is a scheme.\<close>

definition url_scheme :: "string \<Rightarrow> string" where
  "url_scheme s =
     (let sch = takeWhile (\<lambda>c. c \<noteq> CHR '':'') s in
      if sch \<noteq> [] \<and> sch \<noteq> s \<and> is_alpha (hd sch) \<and> list_all scheme_chr sch
      then map lower_chr sch else [])"

definition is_url :: "string \<Rightarrow> bool" where
  "is_url s \<longleftrightarrow> url_scheme s \<in> set valid_url_schemes"

text \<open>\<open>is_fsspec_url\<close>: \<open>^[A-Za-z][A-Za-z0-9+\-.]*://\<close>, not \<open>http(s)://\<close>.\<close>

definition is_fsspec_url :: "string \<Rightarrow> bool" where
  "is_fsspec_url s \<longleftrightarrow>
     (let sch = takeWhile scheme_chr s in
      sch \<noteq> [] \<and> is_alpha (hd sch) \<and> take 3 (drop (length sch) s) = ''://'' \<and>
      \<not> (take 7 s = ''http://'' \<or> take 8 s = ''https://''))"

definition json_suffixes :: "string list" where
  "json_suffixes = ''.json'' # map (\<lambda>x. ''.json'' @ x)
     [''.tar'', ''.tar.gz'', ''.tar.bz2'', ''.tar.xz'', ''.gz'', ''.bz2'', ''.zip'', ''.xz'', ''.zst'']"

definition endswith :: "string \<Rightarrow> string \<Rightarrow> bool" where
  "endswith s x \<longleftrightarrow> length x \<le> length s \<and> drop (length s - length x) s = x"

definition source_text :: "io_env \<Rightarrow> pyval \<Rightarrow> string result" where
  "source_text env v = (case v of
      PStr s \<Rightarrow>
        if is_url s \<or> is_fsspec_url s then (case urls env s of None \<Rightarrow> Inl OSError | Some t \<Rightarrow> Inr t)
        else if files env s \<noteq> None then Inr (the (files env s))
        else if list_ex (endswith (map lower_chr s)) json_suffixes then Inl FileNotFoundError
        else Inr s
    | _ \<Rightarrow> Inl ValueError)"

section \<open>Lines\<close>

text \<open>\<open>s.split(sep)\<close>.\<close>

fun split_on :: "char \<Rightarrow> string \<Rightarrow> string list" where
  "split_on c [] = [[]]"
| "split_on c (x # xs) =
     (if x = c then [] # split_on c xs
      else (case split_on c xs of l # ls \<Rightarrow> (x # l) # ls | [] \<Rightarrow> [[x]]))"

definition combine_lines :: "string list \<Rightarrow> string" where
  "combine_lines ls = CHR ''['' # join '','' (filter (\<lambda>l. l \<noteq> []) (map py_strip ls)) @ '']''"

section \<open>dtype casts\<close>

datatype dtype = Float64

text \<open>\<open>astype(float)\<close> of one cell: \<open>float(x)\<close>, with \<open>None\<close> becoming NaN.\<close>

fun float_cell :: "pyval \<Rightarrow> pyfloat result" where
  "float_cell (PInt i) = (if dec_overflows i 0 then Inl OverflowError else Inr (float_of_dec i 0))"
| "float_cell (PFloat f) = Inr f"
| "float_cell (PBool b) = Inr (Fin (if b then 1 else 0) 0)"
| "float_cell PNone = Inr NaN"
| "float_cell (PStr s) = py_float_str s"
| "float_cell (PList vs) = Inl ValueError"
| "float_cell (PDict kvs) = Inl TypeError"

fun astype_float :: "pyval list \<Rightarrow> pyval list result" where
  "astype_float [] = Inr []"
| "astype_float (x # xs) =
     res_bind (float_cell x) (\<lambda>f. res_bind (astype_float xs) (\<lambda>ys. Inr (PFloat f # ys)))"

text \<open>\<open>_try_convert_data\<close> with a dtype: \<open>TypeError\<close> and \<open>ValueError\<close> keep the column.\<close>

definition try_convert :: "dtype \<Rightarrow> pyval list \<Rightarrow> pyval list result" where
  "try_convert dt c = (case astype_float c of
      Inr c' \<Rightarrow> Inr c'
    | Inl e \<Rightarrow> if e = TypeError \<or> e = ValueError then Inr c else Inl e)"

fun convert_columns ::
  "(string \<times> dtype) list \<Rightarrow> (collabel \<times> pyval list) list \<Rightarrow> (collabel \<times> pyval list) list result"
where
  "convert_columns schema [] = Inr []"
| "convert_columns schema ((l, c) # cs) =
     res_bind (case l of
                 Name k \<Rightarrow> (case map_of schema k of None \<Rightarrow> Inr c | Some dt \<Rightarrow> try_convert dt c)
               | Pos i \<Rightarrow> Inr c)
       (\<lambda>c'. res_bind (convert_columns schema cs) (\<lambda>cs'. Inr ((l, c') # cs')))"

section \<open>read_json\<close>

definition read_json_lines :: "io_env \<Rightarrow> pyval \<Rightarrow> (string \<times> dtype) list \<Rightarrow> frame result" where
  "read_json_lines env v schema =
     res_bind (source_text env v) (\<lambda>txt.
     res_bind (loads (combine_lines (split_on (CHR 0x0A) txt))) (\<lambda>parsed.
     res_bind (case parsed of PList xs \<Rightarrow> dataframe xs | _ \<Rightarrow> Inl ValueError) (\<lambda>df.
     res_bind (convert_columns schema (columns df)) (\<lambda>cs.
     Inr (df\<lparr>columns := cs\<rparr>)))))"

end
