(* ===== verification/Flask_Http.thy ===== *)
theory Flask_Http
  imports Frame
begin

text \<open>
  The part of Flask and Werkzeug the service runs through: a request and a response,
  \<open>request.get_json(force=True)\<close>, turning a view's return value into a response
  (\<open>Flask.make_response\<close> and \<open>DefaultJSONProvider.response\<close> in debug mode), the
  error responses (an HTTP exception is answered with its code; any other exception
  propagates to the debugger, which answers 500), and URL dispatch
  (\<open>Map.bind(...).match\<close>: no rule for the path is 404, a rule without the method is
  405, a path that matches a rule only after merging repeated slashes is redirected
  (308), \<open>OPTIONS\<close> is answered automatically, \<open>HEAD\<close> runs the \<open>GET\<close> view and
  drops the body). Views are parameters: dispatch is stated for any view function. Last,
  \<open>resp_typed\<close> says which responses are well-formed.
\<close>

datatype http_method = GET | HEAD | POST | PUT | DELETE | PATCH | OPTIONS

record request =
  req_method :: http_method
  req_path :: string
  req_body :: string

datatype body = JsonText string | ErrorPage nat | NoBody | RedirectTo string

record response =
  status :: nat
  body :: body
  allow :: "http_method list"

text \<open>What a view returns: a dict and the status code it goes out with.\<close>

datatype view_rv = RvDict pyval nat

section \<open>Request data\<close>

text \<open>
  \<open>Request.get_json(force=True)\<close>: the body is decoded whatever its content type; a
  \<open>ValueError\<close> of the decoder becomes \<open>BadRequest\<close> (\<open>on_json_loading_failed\<close>).
\<close>

definition get_json :: "request \<Rightarrow> pyval result" where
  "get_json req = (case loads (req_body req) of Inl e \<Rightarrow> Inl BadRequest | Inr v \<Rightarrow> Inr v)"

section \<open>Responses\<close>

definition json_response :: "pyval \<Rightarrow> nat \<Rightarrow> response" where
  "json_response v code =
     \<lparr>status = code, body = JsonText (dumps flask_debug_opts v @ [CHR 0x0A]), allow = []\<rparr>"

fun make_response :: "view_rv \<Rightarrow> response" where
  "make_response (RvDict v code) = json_response v code"

definition error_response :: "py_error \<Rightarrow> response" where
  "error_response e =
     (if e = BadRequest then \<lparr>status = 400, body = ErrorPage 400, allow = []\<rparr>
      else \<lparr>status = 500, body = ErrorPage 500, allow = []\<rparr>)"

definition finish :: "view_rv result \<Rightarrow> response" where
  "finish r = (case r of Inl e \<Rightarrow> error_response e | Inr rv \<Rightarrow> make_response rv)"

section \<open>Routing\<close>

record 'e rule =
  rule_path :: string
  rule_methods :: "http_method list"
  rule_endpoint :: 'e

text \<open>\<open>add_url_rule\<close>: \<open>HEAD\<close> joins \<open>GET\<close>, and \<open>OPTIONS\<close> is always provided.\<close>

definition route_methods :: "http_method list \<Rightarrow> http_method list" where
  "route_methods ms = remdups (ms @ (if GET \<in> set ms then [HEAD] else []) @ [OPTIONS])"

text \<open>
  Werkzeug's matcher with \<open>merge_slashes\<close> (on by default): when no rule matches the path
  as sent, it tries again with \<open>re.sub("/{2,}?", "/", path)\<close>, which replaces each
  non-overlapping pair of slashes by one, and a rule found that way for the request's
  method is answered with a permanent redirect (308) to the merged path.
\<close>

fun merge_slashes :: "string \<Rightarrow> string" where
  "merge_slashes (CHR ''/'' # CHR ''/'' # cs) = CHR ''/'' # merge_slashes cs"
| "merge_slashes (c # cs) = c # merge_slashes cs"
| "merge_slashes [] = []"

definition dispatch_rule ::
  "'e rule \<Rightarrow> ('e \<Rightarrow> request \<Rightarrow> view_rv result) \<Rightarrow> request \<Rightarrow> response"
where
  "dispatch_rule r view req =
     (if req_method req \<notin> set (rule_methods r)
      then \<lparr>status = 405, body = ErrorPage 405, allow = rule_methods r\<rparr>
      else if req_method req = OPTIONS
      then \<lparr>status = 200, body = NoBody, allow = rule_methods r\<rparr>
      else (let resp = finish (view (rule_endpoint r) req)
            in if req_method req = HEAD then resp\<lparr>body := NoBody\<rparr> else resp))"

definition dispatch ::
  "'e rule list \<Rightarrow> ('e \<Rightarrow> request \<Rightarrow> view_rv result) \<Rightarrow> request \<Rightarrow> response"
where
  "dispatch rules view req =
     (case filter (\<lambda>r. rule_path r = req_path req) rules of
        r # _ \<Rightarrow> dispatch_rule r view req
      | [] \<Rightarrow>
          (case filter (\<lambda>r. rule_path r = merge_slashes (req_path req)) rules of
             [] \<Rightarrow> \<lparr>status = 404, body = ErrorPage 404, allow = []\<rparr>
           | r # _ \<Rightarrow>
               if req_method req \<notin> set (rule_methods r)
               then \<lparr>status = 405, body = ErrorPage 405, allow = rule_methods r\<rparr>
               else \<lparr>status = 308, body = RedirectTo (merge_slashes (req_path req)), allow = []\<rparr>))"

section \<open>The shape of a response\<close>

text \<open>
  The responses the service can send, as a typing judgment on \<open>response\<close>: a JSON body
  only with 200, an error page whose code is the status (400, 404, 500, or 405 with the
  allowed methods), a redirect only with 308, the automatic answer to \<open>OPTIONS\<close>, and
  the body-less answer to \<open>HEAD\<close>.
\<close>

fun body_typed :: "nat \<Rightarrow> http_method list \<Rightarrow> body \<Rightarrow> bool" where
  "body_typed s ms (JsonText t) \<longleftrightarrow> s = 200 \<and> ms = []"
| "body_typed s ms (ErrorPage c) \<longleftrightarrow> c = s \<and>
     (if s = 405 then OPTIONS \<in> set ms else s \<in> {400, 404, 500} \<and> ms = [])"
| "body_typed s ms NoBody \<longleftrightarrow> s = 200 \<and> (ms = [] \<or> OPTIONS \<in> set ms)"
| "body_typed s ms (RedirectTo loc) \<longleftrightarrow> s = 308 \<and> ms = []"

definition resp_typed :: "response \<Rightarrow> bool" where
  "resp_typed r \<longleftrightarrow> body_typed (status r) (allow r) (body r)"

end
