(* ===== verification/Json_Roundtrip.thy ===== *)
theory Json_Roundtrip
  imports Json_Decode
begin

text \<open>
  The encoder and the decoder agree: what \<open>json.dumps\<close> writes, \<open>json.loads\<close> reads
  back. The proof goes bottom-up and follows the grammar:
  \<^item> string escapes (\<open>scan_str_esc\<close>);
  \<^item> \<open>repr\<close> of ints (\<open>scan_number_int_repr\<close>);
  \<^item> \<open>repr\<close> of floats in all four of its shapes (\<open>scan_number_fin_repr\<close>), for
    every float that is a double;
  \<^item> the elements of an array and the members of an object, with the separators and
    indentation between them (\<open>scan_elems_enc\<close>, \<open>scan_members_enc\<close>);
  \<^item> any value (\<open>scan_value_enc\<close>).

  Fuel monotonicity (\<open>scan_value_fuel_indep\<close>) carries the result to the fuel
  \<open>loads\<close> provides.
\<close>

section \<open>Strings\<close>

lemma hex_val_hex_chr [simp]: "d < 16 \<Longrightarrow> hex_val (hex_chr d) = Some d"
  by (auto simp: hex_val_def hex_chr_def digit_chr_def Let_def)

lemma hex4_esc:
  "hex4 (CHR ''0'' # CHR ''0'' # hex_chr (of_char c div 16) # hex_chr (of_char c mod 16) # r) =
     Some (of_char c)"
proof -
  have "(of_char c :: nat) div 16 < 16" using nat_of_char_less_256 [of c] by (simp add: div_less_iff_less_mult)
  moreover have "(of_char c :: nat) mod 16 < 16" by simp
  moreover have "hex_val (CHR ''0'') = Some 0" by (simp add: hex_val_def)
  ultimately show ?thesis by simp
qed


text \<open>Decoding one escaped character: the scanner takes exactly what \<open>esc_char\<close> wrote.\<close>

lemma scan_str_esc_char:
  assumes "rest \<noteq> []"
  shows "scan_str acc (esc_char c @ rest) = scan_str (c # acc) rest"
proof -
  consider "c = bslash" | "c = dquote" | "c = CHR 0x08" | "c = CHR 0x0C" | "c = CHR 0x0A"
    | "c = CHR 0x0D" | "c = CHR 0x09"
    | "c \<notin> {bslash, dquote, CHR 0x08, CHR 0x0C, CHR 0x0A, CHR 0x0D, CHR 0x09}"
      "32 \<le> (of_char c :: nat) \<and> (of_char c :: nat) \<le> 126"
    | "c \<notin> {bslash, dquote, CHR 0x08, CHR 0x0C, CHR 0x0A, CHR 0x0D, CHR 0x09}"
      "\<not> (32 \<le> (of_char c :: nat) \<and> (of_char c :: nat) \<le> 126)"
    by blast
  then show ?thesis
  proof cases
    case 8
    then have "c \<noteq> dquote" "c \<noteq> bslash" "\<not> (of_char c :: nat) < 32" by auto
    with 8 show ?thesis by (simp add: esc_char_def)
  next
    case 9
    then have e: "esc_char c = [bslash, CHR ''u'', CHR ''0'', CHR ''0'',
        hex_chr (of_char c div 16), hex_chr (of_char c mod 16)]"
      by (auto simp: esc_char_def)
    obtain x xs where "rest = x # xs" using assms by (cases rest) auto
    then show ?thesis
      by (simp del: hex4.simps add: e hex4_esc nat_of_char_less_256 dquote_def bslash_def)
  qed (simp_all add: esc_char_def simple_escape_def dquote_def bslash_def)
qed


lemma scan_str_esc: "scan_str acc (concat (map esc_char s) @ dquote # r) = Inr (rev acc @ s, r)"
proof (induction s arbitrary: acc)
  case Nil
  then show ?case by simp
next
  case (Cons c s)
  have "scan_str acc (concat (map esc_char (c # s)) @ dquote # r) =
        scan_str (c # acc) (concat (map esc_char s) @ dquote # r)"
    using scan_str_esc_char [of "concat (map esc_char s) @ dquote # r" acc c] by simp
  also have "\<dots> = Inr (rev acc @ c # s, r)"
    using Cons.IH [of "c # acc"] by simp
  finally show ?case .
qed

lemma scan_string_enc: "scan_string (concat (map esc_char s) @ dquote # r) = Inr (PStr s, r)"
  by (simp add: scan_string_def scan_str_esc)


section \<open>Numbers\<close>

text \<open>What may follow a number in an encoding: nothing that would continue it.\<close>

definition no_digit_start :: "string \<Rightarrow> bool" where
  "no_digit_start r \<longleftrightarrow> (case r of [] \<Rightarrow> True | c # _ \<Rightarrow> \<not> is_digit c)"

definition num_end :: "string \<Rightarrow> bool" where
  "num_end r \<longleftrightarrow>
     (case r of [] \<Rightarrow> True | c # _ \<Rightarrow> \<not> is_digit c \<and> c \<noteq> CHR ''.'' \<and> c \<noteq> CHR ''e'' \<and> c \<noteq> CHR ''E'')"

lemma num_end_no_digit_start: "num_end r \<Longrightarrow> no_digit_start r"
  by (auto simp: num_end_def no_digit_start_def split: list.splits)

lemma digits_append_no_digit:
  assumes "\<forall>c\<in>set ds. is_digit c" and "no_digit_start r"
  shows "takeWhile is_digit (ds @ r) = ds" and "dropWhile is_digit (ds @ r) = r"
  using assms by (auto simp: no_digit_start_def takeWhile_append2 dropWhile_append2 split: list.splits)

lemma scan_int_part_digits:
  assumes "ds \<noteq> []" and "\<forall>c\<in>set ds. is_digit c" and "hd ds \<noteq> CHR ''0''"
    and "no_digit_start r"
  shows "scan_int_part (ds @ r) = Some (ds, r)"
proof -
  obtain d ds' where ds: "ds = d # ds'" using assms(1) by (cases ds) auto
  with assms digits_append_no_digit [of ds' r] show ?thesis
    by (simp add: scan_int_part_def)
qed

lemma scan_int_part_zero: "scan_int_part (CHR ''0'' # r) = Some (''0'', r)"
  by (simp add: scan_int_part_def)

lemma scan_frac_digits:
  assumes "ds \<noteq> []" and "\<forall>c\<in>set ds. is_digit c" and "no_digit_start r"
  shows "scan_frac (CHR ''.'' # ds @ r) = (ds, r)"
proof -
  obtain d ds' where ds: "ds = d # ds'" using assms(1) by (cases ds) auto
  with assms digits_append_no_digit [of ds' r] show ?thesis
    by (simp add: scan_frac_def)
qed

lemma scan_frac_none: "(case r of c # _ \<Rightarrow> c \<noteq> CHR ''.'' | [] \<Rightarrow> True) \<Longrightarrow> scan_frac r = ([], r)"
  by (auto simp: scan_frac_def split: list.splits)

lemma scan_exp_none:
  "(case r of c # _ \<Rightarrow> c \<noteq> CHR ''e'' \<and> c \<noteq> CHR ''E'' | [] \<Rightarrow> True) \<Longrightarrow> scan_exp r = (None, r)"
  by (auto simp: scan_exp_def split: list.splits)

lemma exp_repr_digits: "exp_repr x = sg # ds \<Longrightarrow> \<forall>c\<in>set ds. is_digit c"
  by (auto simp: exp_repr_def split: if_splits intro: nat_repr_digits)

lemma scan_exp_repr:
  assumes "no_digit_start r"
  shows "scan_exp (CHR ''e'' # exp_repr x @ r) = (Some x, r)"
proof -
  define ds where "ds = (if \<bar>x\<bar> < 10 then CHR ''0'' # nat_repr (nat \<bar>x\<bar>) else nat_repr (nat \<bar>x\<bar>))"
  have e: "exp_repr x = (if x < 0 then CHR ''-'' else CHR ''+'') # ds"
    by (simp add: exp_repr_def ds_def)
  have d: "\<forall>c\<in>set ds. is_digit c"
    using exp_repr_digits [OF e] .
  have ne: "ds \<noteq> []" by (simp add: ds_def)
  have v: "digits_val 0 ds = nat \<bar>x\<bar>"
    by (simp add: ds_def)
  have sp: "split_sign ((if x < 0 then CHR ''-'' else CHR ''+'') # ds @ r) = (x < 0, ds @ r)"
    by (simp add: split_sign_def)
  show ?thesis
    using digits_append_no_digit [OF d assms] ne v sp
    by (simp add: scan_exp_def e Let_def)
qed


lemma nat_repr_0: "nat_repr 0 = ''0''"
  by (simp add: nat_repr.simps [of 0])

lemma nat_repr_nonzero_hd:
  assumes "0 < k"
  shows "hd (nat_repr k) \<noteq> CHR ''0''"
proof
  assume h: "hd (nat_repr k) = CHR ''0''"
  have "nat_repr k = hd (nat_repr k) # tl (nat_repr k)"
    using nat_repr_ne [of k] by simp
  then have "k = 0" using nat_repr_hd h by blast
  with assms show False by simp
qed

lemma scan_int_part_nat_repr:
  assumes "no_digit_start r"
  shows "scan_int_part (nat_repr k @ r) = Some (nat_repr k, r)"
proof (cases "k = 0")
  case True
  then show ?thesis by (simp add: nat_repr_0 scan_int_part_zero)
next
  case False
  have "hd (nat_repr k) \<noteq> CHR ''0''"
    using False by (simp add: nat_repr_nonzero_hd)
  then show ?thesis
    using assms by (intro scan_int_part_digits) (auto intro: nat_repr_digits)
qed

text \<open>\<open>_match_number_unicode\<close> on an input split into its parts.\<close>

lemma scan_number_parts:
  assumes "s1 = [] \<or> hd s1 \<noteq> CHR ''-''"
    and "scan_int_part s1 = Some (ip, r1)" and "scan_frac r1 = (fp, r2)" and "scan_exp r2 = (x, r3)"
  shows "scan_number ((if neg then [CHR ''-''] else []) @ s1) =
    Some (if fp = [] \<and> x = None then PInt (let v = int (digits_val 0 ip) in if neg then - v else v)
          else PFloat (float_of_dec (let m = int (digits_val 0 (ip @ fp)) in if neg then - m else m)
                 ((case x of None \<Rightarrow> 0 | Some k \<Rightarrow> k) - int (length fp))), r3)"
proof -
  obtain c cs where s1: "s1 = c # cs"
    using assms(2) by (cases s1) (auto simp: scan_int_part_def)
  with assms show ?thesis
    by (auto simp: scan_number_def Let_def)
qed

lemma scan_number_int_repr:
  assumes "num_end r"
  shows "scan_number (int_repr i @ r) = Some (PInt i, r)"
proof -
  have nd: "no_digit_start r" using assms by (rule num_end_no_digit_start)
  have s1: "nat_repr (nat \<bar>i\<bar>) @ r = [] \<or> hd (nat_repr (nat \<bar>i\<bar>) @ r) \<noteq> CHR ''-''"
    using nat_repr_digits [of "hd (nat_repr (nat \<bar>i\<bar>))" "nat \<bar>i\<bar>"]
    by (cases "nat_repr (nat \<bar>i\<bar>)") (auto simp: is_digit_def)
  have f: "scan_frac r = ([], r)" and x: "scan_exp r = (None, r)"
    using assms by (auto intro!: scan_frac_none scan_exp_none simp: num_end_def split: list.splits)
  have "int_repr i @ r = (if i < 0 then [CHR ''-''] else []) @ nat_repr (nat \<bar>i\<bar>) @ r"
    by (simp add: int_repr_def)
  then show ?thesis
    using scan_number_parts [OF s1 scan_int_part_nat_repr [OF nd] f x, of "i < 0"]
    by (simp add: Let_def)
qed


lemma scan_number_float_parts:
  assumes "s1 = [] \<or> hd s1 \<noteq> CHR ''-''"
    and "scan_int_part s1 = Some (ip, r1)" and "scan_frac r1 = (fp, r2)" and "scan_exp r2 = (x, r3)"
    and "fp \<noteq> [] \<or> x \<noteq> None"
    and "digits_val 0 (ip @ fp) = nat \<bar>m\<bar> * 10 ^ k"
    and "(case x of None \<Rightarrow> 0 | Some j \<Rightarrow> j) - int (length fp) = e - int k"
    and "is_double (Fin m e)"
  shows "scan_number ((if m < 0 then [CHR ''-''] else []) @ s1) = Some (PFloat (Fin m e), r3)"
proof -
  have "(let v = int (digits_val 0 (ip @ fp)) in if m < 0 then - v else v) = m * 10 ^ k"
    using assms(6) by (simp add: Let_def of_nat_mult)
  then show ?thesis
    using scan_number_parts [OF assms(1-4), of "m < 0"] assms(5,7) float_of_dec_double [OF assms(8), of k]
    by simp
qed


lemma not_digit_dot [simp]: "\<not> is_digit (CHR ''.'')"
  by (simp add: is_digit_def)

lemma not_digit_e [simp]: "\<not> is_digit (CHR ''e'')"
  by (simp add: is_digit_def)

lemma no_digit_start_Cons [simp]: "no_digit_start (c # r) \<longleftrightarrow> \<not> is_digit c"
  by (simp add: no_digit_start_def)

lemma replicate_zero_digits: "\<forall>c\<in>set (replicate k (CHR ''0'')). is_digit c"
  by simp


lemma nat_repr_all_digits: "\<forall>c\<in>set (nat_repr k). is_digit c"
  using nat_repr_digits by blast

lemma not_digit_minus [simp]: "\<not> is_digit (CHR ''-'')"
  by (simp add: is_digit_def)

lemma sign_prefix_not_minus:
  "\<forall>c\<in>set ds. is_digit c \<Longrightarrow> ds \<noteq> [] \<Longrightarrow> ds @ r = [] \<or> hd (ds @ r) \<noteq> CHR ''-''"
  by (cases ds) auto

text \<open>The four shapes of \<open>repr\<close>: below one, with a point inside the digits, a whole number, and scientific.\<close>

lemma scan_fin_small:
  assumes d: "is_double (Fin m e)" and r: "num_end r"
    and p: "int (length (nat_repr (nat \<bar>m\<bar>))) + e \<le> 0"
  defines "D \<equiv> nat_repr (nat \<bar>m\<bar>)"
  shows "scan_number ((if m < 0 then [CHR ''-''] else []) @
           (''0.'' @ replicate (nat (- (int (length D) + e))) (CHR ''0'') @ D) @ r) =
         Some (PFloat (Fin m e), r)"
proof -
  define Z where "Z = replicate (nat (- (int (length D) + e))) (CHR ''0'')"
  have nd: "no_digit_start r" using r by (rule num_end_no_digit_start)
  have dz: "\<forall>c\<in>set (Z @ D). is_digit c"
    by (auto simp: Z_def D_def intro: nat_repr_digits)
  have ne: "Z @ D \<noteq> []" by (simp add: D_def)
  have f: "scan_frac (CHR ''.'' # (Z @ D) @ r) = (Z @ D, r)"
    using scan_frac_digits [OF ne dz nd] by simp
  have x: "scan_exp r = (None, r)"
    using r by (auto intro!: scan_exp_none simp: num_end_def split: list.splits)
  have s1: "CHR ''0'' # CHR ''.'' # (Z @ D) @ r = [] \<or> hd (CHR ''0'' # CHR ''.'' # (Z @ D) @ r) \<noteq> CHR ''-''"
    by simp
  have v: "digits_val 0 (''0'' @ Z @ D) = nat \<bar>m\<bar> * 10 ^ 0"
    by (simp add: Z_def D_def)
  have e: "(case None of None \<Rightarrow> 0 | Some j \<Rightarrow> j) - int (length (Z @ D)) = e - int 0"
    using p by (simp add: Z_def D_def)
  show ?thesis
    using scan_number_float_parts [OF s1 scan_int_part_zero f x _ v e d] ne
    by (simp add: Z_def)
qed

lemma is_double_zero: "is_double (Fin 0 e) \<Longrightarrow> e = 0"
  by (simp add: is_double_def)

lemma nat_repr_abs_nonzero_hd: "m \<noteq> 0 \<Longrightarrow> hd (nat_repr (nat \<bar>m\<bar>)) \<noteq> CHR ''0''"
  by (rule nat_repr_nonzero_hd) simp

lemma scan_fin_mid:
  fixes m e :: int
  defines "D \<equiv> nat_repr (nat \<bar>m\<bar>)"
  assumes d: "is_double (Fin m e)" and r: "num_end r"
    and p: "0 < int (length D) + e" "int (length D) + e < int (length D)"
  shows "scan_number ((if m < 0 then [CHR ''-''] else []) @
           (take (nat (int (length D) + e)) D @ CHR ''.'' # drop (nat (int (length D) + e)) D) @ r) =
         Some (PFloat (Fin m e), r)"
proof -
  define k where "k = nat (int (length D) + e)"
  have m0: "m \<noteq> 0"
  proof
    assume "m = 0"
    with d have "e = 0" "D = ''0''" by (simp_all add: is_double_zero D_def nat_repr_0)
    with p show False by simp
  qed
  have k: "0 < k" "k < length D" using p by (simp_all add: k_def)
  have dd: "\<forall>c\<in>set D. is_digit c" by (simp add: D_def nat_repr_all_digits)
  have nd: "no_digit_start r" using r by (rule num_end_no_digit_start)
  have tk: "take k D \<noteq> []" "\<forall>c\<in>set (take k D). is_digit c" "hd (take k D) \<noteq> CHR ''0''"
    using k dd m0 by (auto simp: D_def nat_repr_abs_nonzero_hd dest: in_set_takeD)
  have dr: "drop k D \<noteq> []" "\<forall>c\<in>set (drop k D). is_digit c"
    using k dd by (auto dest: in_set_dropD)
  have ip: "scan_int_part (take k D @ CHR ''.'' # drop k D @ r) = Some (take k D, CHR ''.'' # drop k D @ r)"
    using scan_int_part_digits [OF tk, of "CHR ''.'' # drop k D @ r"] by simp
  have f: "scan_frac (CHR ''.'' # drop k D @ r) = (drop k D, r)"
    using scan_frac_digits [OF dr nd] .
  have x: "scan_exp r = (None, r)"
    using r by (auto intro!: scan_exp_none simp: num_end_def split: list.splits)
  have s1: "take k D @ CHR ''.'' # drop k D @ r = [] \<or> hd (take k D @ CHR ''.'' # drop k D @ r) \<noteq> CHR ''-''"
    using sign_prefix_not_minus [OF tk(2) tk(1), of "CHR ''.'' # drop k D @ r"] by simp
  have v: "digits_val 0 (take k D @ drop k D) = nat \<bar>m\<bar> * 10 ^ 0"
    by (simp add: D_def)
  have e: "(case None of None \<Rightarrow> 0 | Some j \<Rightarrow> j) - int (length (drop k D)) = e - int 0"
    using k p by (simp add: k_def)
  show ?thesis
    using scan_number_float_parts [OF s1 ip f x _ v e d] dr
    by (simp add: k_def)
qed

lemma scan_fin_whole:
  fixes m e :: int
  defines "D \<equiv> nat_repr (nat \<bar>m\<bar>)"
  assumes d: "is_double (Fin m e)" and r: "num_end r" and e0: "0 \<le> e"
  shows "scan_number ((if m < 0 then [CHR ''-''] else []) @
           (D @ replicate (nat e) (CHR ''0'') @ ''.0'') @ r) =
         Some (PFloat (Fin m e), r)"
proof -
  define Z where "Z = replicate (nat e) (CHR ''0'')"
  have dd: "\<forall>c\<in>set (D @ Z). is_digit c"
    by (auto simp: D_def Z_def intro: nat_repr_digits)
  have ne: "D @ Z \<noteq> []" by (simp add: D_def)
  have nd: "no_digit_start r" using r by (rule num_end_no_digit_start)
  have ip: "scan_int_part ((D @ Z) @ CHR ''.'' # ''0'' @ r) = Some (D @ Z, CHR ''.'' # ''0'' @ r)"
  proof (cases "m = 0")
    case True
    moreover have "e = 0" using d True is_double_zero by blast
    ultimately have "D @ Z = ''0''" by (simp add: D_def Z_def nat_repr_0)
    then show ?thesis by (simp add: scan_int_part_zero)
  next
    case False
    then have "hd (D @ Z) \<noteq> CHR ''0''" by (simp add: D_def nat_repr_abs_nonzero_hd)
    with ne dd show ?thesis by (intro scan_int_part_digits) simp_all
  qed
  have f: "scan_frac (CHR ''.'' # ''0'' @ r) = (''0'', r)"
    using scan_frac_digits [of "''0''" r] nd by simp
  have x: "scan_exp r = (None, r)"
    using r by (auto intro!: scan_exp_none simp: num_end_def split: list.splits)
  have s1: "(D @ Z) @ CHR ''.'' # ''0'' @ r = [] \<or> hd ((D @ Z) @ CHR ''.'' # ''0'' @ r) \<noteq> CHR ''-''"
    using sign_prefix_not_minus [OF dd ne, of "CHR ''.'' # ''0'' @ r"] by simp
  have v: "digits_val 0 ((D @ Z) @ ''0'') = nat \<bar>m\<bar> * 10 ^ (nat e + 1)"
    by (simp add: D_def Z_def power_add)
  have ex: "(case None of None \<Rightarrow> 0 | Some j \<Rightarrow> j) - int (length ''0'') = e - int (nat e + 1)"
    using e0 by simp
  show ?thesis
    using scan_number_float_parts [OF s1 ip f x _ v ex d]
    by (simp add: Z_def)
qed

lemma scan_fin_sci:
  fixes m e :: int
  defines "D \<equiv> nat_repr (nat \<bar>m\<bar>)"
  assumes d: "is_double (Fin m e)" and r: "num_end r" and m0: "m \<noteq> 0"
  shows "scan_number ((if m < 0 then [CHR ''-''] else []) @
           (hd D # (if length D = 1 then [] else CHR ''.'' # tl D) @
              CHR ''e'' # exp_repr (int (length D) + e - 1)) @ r) =
         Some (PFloat (Fin m e), r)"
proof -
  define X where "X = int (length D) + e - 1"
  have dd: "\<forall>c\<in>set D. is_digit c" by (simp add: D_def nat_repr_all_digits)
  have ne: "D \<noteq> []" by (simp add: D_def)
  have hD: "is_digit (hd D)" "hd D \<noteq> CHR ''0''"
    using dd ne m0 by (simp_all add: D_def nat_repr_abs_nonzero_hd)
  have nd: "no_digit_start r" using r by (rule num_end_no_digit_start)
  have x: "scan_exp (CHR ''e'' # exp_repr X @ r) = (Some X, r)"
    using scan_exp_repr [OF nd] .
  have s1: "\<And>t. hd D # t = [] \<or> hd (hd D # t) \<noteq> CHR ''-''"
    using hD by auto
  show ?thesis
  proof (cases "length D = 1")
    case True
    have ip: "scan_int_part ([hd D] @ CHR ''e'' # exp_repr X @ r) = Some ([hd D], CHR ''e'' # exp_repr X @ r)"
      using hD by (intro scan_int_part_digits) simp_all
    have f: "scan_frac (CHR ''e'' # exp_repr X @ r) = ([], CHR ''e'' # exp_repr X @ r)"
      by (rule scan_frac_none) simp
    have "D = [hd D]" using True ne by (cases D) auto
    then have v: "digits_val 0 ([hd D] @ []) = nat \<bar>m\<bar> * 10 ^ 0"
      by (metis D_def append_Nil2 nat_repr_digits_val power_0 mult_1_right)
    have ex: "(case Some X of None \<Rightarrow> 0 | Some j \<Rightarrow> j) - int (length ([] :: string)) = e - int 0"
      using True by (simp add: X_def)
    show ?thesis
      using scan_number_float_parts [OF s1 [of "CHR ''e'' # exp_repr X @ r"] ip [simplified] f x _ v ex d] True
      by (simp add: X_def)
  next
    case False
    then have tl: "tl D \<noteq> []" "\<forall>c\<in>set (tl D). is_digit c"
      using ne dd by (cases D; simp)+
    have ip: "scan_int_part ([hd D] @ CHR ''.'' # tl D @ CHR ''e'' # exp_repr X @ r) =
        Some ([hd D], CHR ''.'' # tl D @ CHR ''e'' # exp_repr X @ r)"
      using hD by (intro scan_int_part_digits) simp_all
    have f: "scan_frac (CHR ''.'' # tl D @ CHR ''e'' # exp_repr X @ r) = (tl D, CHR ''e'' # exp_repr X @ r)"
      using scan_frac_digits [OF tl, of "CHR ''e'' # exp_repr X @ r"] by simp
    have v: "digits_val 0 ([hd D] @ tl D) = nat \<bar>m\<bar> * 10 ^ 0"
      using ne by (simp add: D_def)
    have ex: "(case Some X of None \<Rightarrow> 0 | Some j \<Rightarrow> j) - int (length (tl D)) = e - int 0"
      using ne by (simp add: X_def of_nat_diff Suc_le_eq)
    show ?thesis
      using scan_number_float_parts [OF s1 [of "CHR ''.'' # tl D @ CHR ''e'' # exp_repr X @ r"] ip [simplified] f x _ v ex d] False
      by (simp add: X_def)
  qed
qed

lemma scan_number_fin_repr:
  assumes d: "is_double (Fin m e)" and r: "num_end r"
  shows "scan_number (fin_repr m e @ r) = Some (PFloat (Fin m e), r)"
proof -
  define D where "D = nat_repr (nat \<bar>m\<bar>)"
  define p where "p = int (length D) + e"
  have sg: "\<And>b. (if m < 0 then CHR ''-'' # b else b) @ r = (if m < 0 then [CHR ''-''] else []) @ b @ r"
    by simp
  have fr: "fin_repr m e = (if m < 0 then CHR ''-'' # b else b)"
    if "b = (if -4 < p \<and> p \<le> 16 then
                    (if p \<le> 0 then ''0.'' @ replicate (nat (- p)) (CHR ''0'') @ D
                     else if p < int (length D) then take (nat p) D @ ''.'' @ drop (nat p) D
                     else D @ replicate (nat (p - int (length D))) (CHR ''0'') @ ''.0'')
                  else hd D # (if int (length D) = 1 then [] else CHR ''.'' # tl D) @ CHR ''e'' # exp_repr (p - 1))"
    for b
    using that by (simp add: fin_repr_def Let_def D_def p_def)
  consider (small) "-4 < p" "p \<le> 0" | (mid) "0 < p" "p \<le> 16" "p < int (length D)"
    | (whole) "0 < p" "p \<le> 16" "int (length D) \<le> p" | (sci) "\<not> (-4 < p \<and> p \<le> 16)"
    by linarith
  then show ?thesis
  proof cases
    case small
    then have "fin_repr m e = (if m < 0 then CHR ''-'' # (''0.'' @ replicate (nat (- p)) (CHR ''0'') @ D)
        else ''0.'' @ replicate (nat (- p)) (CHR ''0'') @ D)"
      by (intro fr) simp
    then show ?thesis
      using scan_fin_small [OF d r, folded D_def, folded p_def] small by (simp only: sg)
  next
    case mid
    then have "fin_repr m e = (if m < 0 then CHR ''-'' # (take (nat p) D @ CHR ''.'' # drop (nat p) D)
        else take (nat p) D @ CHR ''.'' # drop (nat p) D)"
      by (intro fr) simp
    then show ?thesis
      using scan_fin_mid [OF d r, folded D_def, folded p_def] mid by (simp only: sg)
  next
    case whole
    then have "fin_repr m e = (if m < 0 then CHR ''-'' # (D @ replicate (nat e) (CHR ''0'') @ ''.0'')
        else D @ replicate (nat e) (CHR ''0'') @ ''.0'')"
      by (intro fr) (simp add: p_def)
    moreover have "0 \<le> e" using whole by (simp add: p_def)
    ultimately show ?thesis
      using scan_fin_whole [OF d r, folded D_def] by (simp only: sg)
  next
    case sci
    have m0: "m \<noteq> 0"
    proof
      assume "m = 0"
      with d have "e = 0" "D = ''0''" by (simp_all add: is_double_zero D_def nat_repr_0)
      with sci show False by (simp add: p_def)
    qed
    have "fin_repr m e = (if m < 0 then CHR ''-'' # (hd D # (if int (length D) = 1 then [] else CHR ''.'' # tl D) @
              CHR ''e'' # exp_repr (p - 1))
        else hd D # (if int (length D) = 1 then [] else CHR ''.'' # tl D) @ CHR ''e'' # exp_repr (p - 1))"
      by (intro fr) (simp only: if_not_P [OF sci])
    then show ?thesis
      using scan_fin_sci [OF d r m0, folded D_def] by (simp add: sg p_def)
  qed
qed

section \<open>Whitespace and separators\<close>

definition ws_str :: "string \<Rightarrow> bool" where
  "ws_str w \<longleftrightarrow> (\<forall>c\<in>set w. is_json_ws c)"

text \<open>The separators \<open>json.dumps\<close> accepts: a comma and a colon, each followed by whitespace.\<close>

definition seps_ok :: "dump_opts \<Rightarrow> bool" where
  "seps_ok opts \<longleftrightarrow>
     (\<exists>w. item_sep opts = CHR '','' # w \<and> ws_str w) \<and> (\<exists>w. key_sep opts = CHR '':'' # w \<and> ws_str w)"

text \<open>What may follow an encoded value: whitespace, a delimiter, or the end.\<close>

definition val_end :: "string \<Rightarrow> bool" where
  "val_end r \<longleftrightarrow> (case r of [] \<Rightarrow> True
     | c # _ \<Rightarrow> is_json_ws c \<or> c = CHR '','' \<or> c = CHR '']'' \<or> c = CHR ''}'')"

lemma skip_ws_ws_append: "ws_str w \<Longrightarrow> skip_ws (w @ s) = skip_ws s"
  by (induction w) (auto simp: skip_ws_def ws_str_def)

lemma skip_ws_Cons_not_ws: "\<not> is_json_ws c \<Longrightarrow> skip_ws (c # s) = c # s"
  by (simp add: skip_ws_def)

lemma ws_str_newline_indent [simp]: "ws_str (newline_indent opts l)"
  by (auto simp: ws_str_def newline_indent_def is_json_ws_def split: option.splits)

lemma ws_str_append [simp]: "ws_str (v @ w) \<longleftrightarrow> ws_str v \<and> ws_str w"
  by (auto simp: ws_str_def)

lemma val_end_num_end: "val_end r \<Longrightarrow> num_end r"
  by (auto simp: val_end_def num_end_def is_json_ws_def is_digit_def split: list.splits)

lemma val_end_ws: "ws_str w \<Longrightarrow> val_end (w @ c # r) \<longleftrightarrow> (w \<noteq> [] \<or> val_end (c # r))"
  by (cases w) (auto simp: val_end_def ws_str_def)

lemma flask_debug_seps: "seps_ok flask_debug_opts"
  by (simp add: seps_ok_def flask_debug_opts_def ws_str_def is_json_ws_def)

section \<open>Encoded values read back\<close>

text \<open>Values whose floats are doubles: what a Python program can hand to \<open>json.dumps\<close>.\<close>

fun doubles_ok :: "pyval \<Rightarrow> bool" where
  "doubles_ok (PFloat f) = is_double f"
| "doubles_ok (PList vs) = list_all doubles_ok vs"
| "doubles_ok (PDict kvs) = list_all (\<lambda>(k, v). doubles_ok v) kvs"
| "doubles_ok PNone = True"
| "doubles_ok (PBool b) = True"
| "doubles_ok (PInt i) = True"
| "doubles_ok (PStr s) = True"

lemma scan_number_start: "scan_number s = Some x \<Longrightarrow> \<exists>c t. s = c # t \<and> (c = CHR ''-'' \<or> is_digit c)"
  by (cases s) (auto simp: scan_number_def scan_int_part_def split: if_splits list.splits option.splits)

lemma scan_atom_number:
  assumes "scan_number s = Some x"
  shows "scan_atom s = Inr x"
proof -
  obtain c t where s: "s = c # t" and c: "c = CHR ''-'' \<or> is_digit c"
    using scan_number_start [OF assms] by blast
  have "c \<noteq> CHR ''n''" "c \<noteq> CHR ''t''" "c \<noteq> CHR ''f''"
    using c by (auto simp: is_digit_def)
  with assms s show ?thesis by (simp add: scan_atom_def)
qed

lemma scan_value_number:
  assumes "scan_number s = Some x"
  shows "scan_value (Suc n) s = Some (Inr x)"
proof -
  obtain c t where s: "s = c # t" and c: "c = CHR ''-'' \<or> is_digit c"
    using scan_number_start [OF assms] by blast
  have "c \<noteq> dquote" "c \<noteq> CHR ''{''" "c \<noteq> CHR ''[''"
    using c by (auto simp: is_digit_def dquote_def)
  with s scan_atom_number [OF assms] show ?thesis by simp
qed

lemma scan_value_enc_float:
  assumes "is_double f" and "val_end r"
  shows "scan_value (Suc n) (float_str f @ r) = Some (Inr (PFloat f, r))"
proof (cases f)
  case (Fin m e)
  with assms show ?thesis
    by (simp add: scan_value_number scan_number_fin_repr val_end_num_end)
qed (simp_all add: scan_atom_def scan_number_def scan_int_part_def dquote_def is_digit_def)

lemma scan_value_enc_int: "val_end r \<Longrightarrow> scan_value (Suc n) (int_repr i @ r) = Some (Inr (PInt i, r))"
  by (simp add: scan_value_number scan_number_int_repr val_end_num_end)

lemma scan_value_enc_str: "scan_value (Suc n) (enc_str s @ r) = Some (Inr (PStr s, r))"
  by (simp add: enc_str_def scan_string_enc)

lemma enc_first:
  assumes "doubles_ok v"
  shows "\<exists>c t. enc opts l v = c # t \<and> \<not> is_json_ws c \<and> c \<noteq> CHR '']'' \<and> c \<noteq> CHR ''}''"
proof (cases v)
  case (PInt i)
  obtain c t where "int_repr i @ [] = c # t" and "c = CHR ''-'' \<or> is_digit c"
    using scan_number_start [OF scan_number_int_repr [of "[]" i]] by (auto simp: num_end_def)
  with PInt show ?thesis by (auto simp: is_json_ws_def is_digit_def)
next
  case (PFloat f)
  show ?thesis
  proof (cases f)
    case (Fin m e)
    with assms PFloat have "is_double (Fin m e)" by simp
    then obtain c t where "fin_repr m e @ [] = c # t" and "c = CHR ''-'' \<or> is_digit c"
      using scan_number_start [OF scan_number_fin_repr [of m e "[]"]] by (auto simp: num_end_def)
    with PFloat Fin show ?thesis by (auto simp: is_json_ws_def is_digit_def)
  qed (simp_all add: PFloat is_json_ws_def)
qed (auto simp: is_json_ws_def enc_str_def dquote_def)

lemma skip_ws_enc: "doubles_ok v \<Longrightarrow> skip_ws (enc opts l v @ r) = enc opts l v @ r"
  using enc_first [of v opts l] by (auto simp: skip_ws_Cons_not_ws)

lemma seps_okE:
  assumes "seps_ok opts"
  obtains w1 w2 where "item_sep opts = CHR '','' # w1" "ws_str w1" "key_sep opts = CHR '':'' # w2" "ws_str w2"
  using assms by (auto simp: seps_ok_def)

text \<open>
  An array whose elements are texts that each read back as a value, joined by a comma and
  whitespace: the scanner collects the values in order. Encoded values are one instance, and
  the lines pandas joins into one array are another.
\<close>

lemma scan_elems_join:
  assumes "\<forall>(t, x)\<in>set txs. (\<exists>c t'. t = c # t' \<and> \<not> is_json_ws c) \<and>
      (\<forall>r. val_end r \<longrightarrow> (\<exists>n. scan_value n (t @ r) = Some (Inr (x, r))))"
    and "txs \<noteq> []" and sep: "sep = CHR '','' # w1" "ws_str w1" and w: "ws_str w"
  shows "\<exists>n. scan_elems n acc (join sep (map fst txs) @ w @ CHR '']'' # r) =
         Some (Inr (PList (rev acc @ map snd txs), r))"
  using assms(1,2)
proof (induction txs arbitrary: acc rule: induct_list012)
  case 1
  then show ?case by simp
next
  case (2 tx)
  obtain t x where tx: "tx = (t, x)" by (cases tx)
  have "val_end (w @ CHR '']'' # r)" using w by (cases w) (auto simp: val_end_def ws_str_def)
  then obtain n where sv: "scan_value n (t @ w @ CHR '']'' # r) = Some (Inr (x, w @ CHR '']'' # r))"
    using "2.prems"(1) tx by auto
  have "skip_ws (w @ CHR '']'' # r) = CHR '']'' # r"
    using w by (simp add: skip_ws_ws_append skip_ws_Cons_not_ws is_json_ws_def)
  with sv have "scan_elems (Suc n) acc (t @ w @ CHR '']'' # r) = Some (Inr (PList (rev acc @ [x]), r))"
    by simp
  then show ?case using tx by (metis join.simps(2) list.simps(8,9) fst_conv snd_conv)
next
  case (3 tx ty tys)
  obtain t x where tx: "tx = (t, x)" by (cases tx)
  define J where "J = join sep (map fst (ty # tys)) @ w @ CHR '']'' # r"
  define R where "R = sep @ J"
  have eq: "join sep (map fst ((t, x) # ty # tys)) @ w @ CHR '']'' # r = t @ R"
    by (simp add: J_def R_def)
  have "val_end R" using sep by (simp add: R_def val_end_def)
  then obtain n where sv: "scan_value n (t @ R) = Some (Inr (x, R))"
    using "3.prems"(1) tx by auto
  obtain n' where se: "scan_elems n' (x # acc) J = Some (Inr (PList (rev (x # acc) @ map snd (ty # tys)), r))"
    using "3.IH"(2) [of "x # acc"] "3.prems" by (auto simp: J_def)
  obtain c t' where ct: "fst ty = c # t'" "\<not> is_json_ws c"
    using "3.prems"(1) by (cases ty) auto
  have skJ: "skip_ws (w1 @ J) = J"
    using sep ct by (cases tys) (simp_all add: J_def skip_ws_ws_append skip_ws_Cons_not_ws)
  have skR: "skip_ws R = CHR '','' # w1 @ J"
    using sep by (simp add: R_def skip_ws_Cons_not_ws is_json_ws_def)
  have "scan_elems (Suc (max n n')) acc (t @ R) = Some (Inr (PList (rev acc @ x # map snd (ty # tys)), r))"
    using scan_value_mono [OF sv, of "max n n'"] scan_elems_mono [OF se, of "max n n'"] skR skJ
    by simp
  then have "\<exists>n. scan_elems n acc (t @ R) = Some (Inr (PList (rev acc @ map snd ((t, x) # ty # tys)), r))"
    by (metis list.simps(9) snd_conv)
  then show ?case unfolding tx eq .
qed

lemma scan_elems_enc:
  assumes IH: "\<forall>x\<in>set vs. \<forall>r. val_end r \<longrightarrow> (\<exists>n. scan_value n (enc opts l x @ r) = Some (Inr (x, r)))"
    and ok: "list_all doubles_ok vs" and s: "seps_ok opts" and vs: "vs \<noteq> []" and w: "ws_str w"
  shows "\<exists>n. scan_elems n acc
           (join (item_sep opts @ newline_indent opts l) (map (enc opts l) vs) @ w @ CHR '']'' # r) =
         Some (Inr (PList (rev acc @ vs), r))"
proof -
  obtain w1 w2 where w1: "item_sep opts = CHR '','' # w1" "ws_str w1"
    using seps_okE [OF s] by metis
  have "\<forall>(t, x)\<in>set (map (\<lambda>x. (enc opts l x, x)) vs). (\<exists>c t'. t = c # t' \<and> \<not> is_json_ws c) \<and>
      (\<forall>r. val_end r \<longrightarrow> (\<exists>n. scan_value n (t @ r) = Some (Inr (x, r))))"
    using IH ok enc_first by (fastforce simp: list_all_iff)
  from scan_elems_join [OF this _ _ _ w, of "item_sep opts @ newline_indent opts l" "w1 @ newline_indent opts l"] vs w1
  show ?thesis by (simp add: comp_def)
qed

lemma dquote_not_ws [simp]: "\<not> is_json_ws dquote"
  by (simp add: dquote_def is_json_ws_def)

text \<open>One member \<open>"k": v\<close> read back: the scanner reaches what follows the value.\<close>

lemma scan_members_item:
  assumes sv: "scan_value n (enc opts l x @ R) = Some (Inr (x, R))" and s: "seps_ok opts"
    and ok: "doubles_ok x"
  shows "scan_members (Suc n) acc (enc_str k @ key_sep opts @ enc opts l x @ R) =
    (case skip_ws R of
       c2 # r3 \<Rightarrow>
         if c2 = CHR ''}'' then Some (Inr (PDict (dict_of_pairs (rev ((k, x) # acc))), r3))
         else if c2 = CHR '','' then
           (case skip_ws r3 of
              c3 # r4 \<Rightarrow>
                if c3 = dquote then scan_members n ((k, x) # acc) (c3 # r4)
                else Some (Inl (JSONDecodeError ExpectingPropertyName))
            | [] \<Rightarrow> Some (Inl (JSONDecodeError ExpectingPropertyName)))
         else Some (Inl (JSONDecodeError ExpectingDelimiter))
     | [] \<Rightarrow> Some (Inl (JSONDecodeError ExpectingDelimiter)))"
proof -
  obtain w1 w2 where w2: "key_sep opts = CHR '':'' # w2" "ws_str w2"
    using seps_okE [OF s] by metis
  have k: "scan_str [] (concat (map esc_char k) @ dquote # key_sep opts @ enc opts l x @ R) =
      Inr (k, key_sep opts @ enc opts l x @ R)"
    using scan_str_esc [of "[]" k] by simp
  have c: "skip_ws (key_sep opts @ enc opts l x @ R) = CHR '':'' # w2 @ enc opts l x @ R"
    using w2 by (simp add: skip_ws_Cons_not_ws is_json_ws_def)
  have v: "skip_ws (w2 @ enc opts l x @ R) = enc opts l x @ R"
    using w2 skip_ws_enc [OF ok] by (simp add: skip_ws_ws_append)
  show ?thesis
    by (simp add: enc_str_def k c v sv)
qed

lemma scan_members_enc:
  assumes IH: "\<forall>(k, x)\<in>set kvs. \<forall>r. val_end r \<longrightarrow> (\<exists>n. scan_value n (enc opts l x @ r) = Some (Inr (x, r)))"
    and ok: "list_all (\<lambda>(k, v). doubles_ok v) kvs" and s: "seps_ok opts" and kvs: "kvs \<noteq> []"
    and w: "ws_str w"
  shows "\<exists>n. scan_members n acc
           (join (item_sep opts @ newline_indent opts l)
              (map (\<lambda>(k, v). enc_str k @ key_sep opts @ enc opts l v) kvs) @ w @ CHR ''}'' # r) =
         Some (Inr (PDict (dict_of_pairs (rev acc @ kvs)), r))"
  using IH ok kvs
proof (induction kvs arbitrary: acc rule: induct_list012)
  case 1
  then show ?case by simp
next
  case (2 kx)
  obtain k x where kx: "kx = (k, x)" by (cases kx)
  have "val_end (w @ CHR ''}'' # r)" using w by (cases w) (auto simp: val_end_def ws_str_def)
  then obtain n where sv: "scan_value n (enc opts l x @ w @ CHR ''}'' # r) = Some (Inr (x, w @ CHR ''}'' # r))"
    using "2.prems"(1) kx by auto
  have "skip_ws (w @ CHR ''}'' # r) = CHR ''}'' # r"
    using w by (simp add: skip_ws_ws_append skip_ws_Cons_not_ws is_json_ws_def)
  with scan_members_item [OF sv s, of acc k] "2.prems"(2) kx
  have "scan_members (Suc n) acc (enc_str k @ key_sep opts @ enc opts l x @ w @ CHR ''}'' # r) =
      Some (Inr (PDict (dict_of_pairs (rev acc @ [(k, x)])), r))"
    by simp
  then show ?case using kx by (metis (no_types, lifting) append_assoc join.simps(2) list.simps(8,9) case_prod_conv)
next
  case (3 kx ky kys)
  obtain k x where kx: "kx = (k, x)" by (cases kx)
  obtain w1 w2 where w1: "item_sep opts = CHR '','' # w1" "ws_str w1"
    using seps_okE [OF s] by metis
  define J where "J = join (item_sep opts @ newline_indent opts l)
      (map (\<lambda>(k, v). enc_str k @ key_sep opts @ enc opts l v) (ky # kys)) @ w @ CHR ''}'' # r"
  define R where "R = (item_sep opts @ newline_indent opts l) @ J"
  have eq: "join (item_sep opts @ newline_indent opts l)
      (map (\<lambda>(k, v). enc_str k @ key_sep opts @ enc opts l v) ((k, x) # ky # kys)) @ w @ CHR ''}'' # r =
      enc_str k @ key_sep opts @ enc opts l x @ R"
    by (simp add: J_def R_def)
  have "val_end R" using w1 by (simp add: R_def val_end_def)
  then obtain n where sv: "scan_value n (enc opts l x @ R) = Some (Inr (x, R))"
    using "3.prems"(1) kx by auto
  obtain n' where se: "scan_members n' ((k, x) # acc) J =
      Some (Inr (PDict (dict_of_pairs (rev ((k, x) # acc) @ ky # kys)), r))"
    using "3.IH"(2) [of "(k, x) # acc"] "3.prems" by (auto simp: J_def)
  obtain ky1 ky2 where ky: "ky = (ky1, ky2)" by (cases ky)
  obtain j where J: "J = dquote # j"
    by (cases kys) (simp_all add: J_def ky enc_str_def)
  have "ws_str (w1 @ newline_indent opts l)" using w1 by simp
  then have skJ: "skip_ws (w1 @ newline_indent opts l @ J) = dquote # j"
    using skip_ws_ws_append [of "w1 @ newline_indent opts l" J] J
    by (simp add: skip_ws_Cons_not_ws dquote_not_ws)
  have skR: "skip_ws R = CHR '','' # w1 @ newline_indent opts l @ J"
    using w1 by (simp add: R_def skip_ws_Cons_not_ws is_json_ws_def)
  have "scan_members (Suc (max n n')) acc (enc_str k @ key_sep opts @ enc opts l x @ R) =
      scan_members (max n n') ((k, x) # acc) (dquote # j)"
    using scan_members_item [OF scan_value_mono [OF sv, of "max n n'"] s, of acc k] "3.prems"(2) kx
      skR skJ
    by simp
  also have "\<dots> = Some (Inr (PDict (dict_of_pairs (rev acc @ (k, x) # ky # kys)), r))"
    using scan_members_mono [OF se, of "max n n'"] J by simp
  finally have "scan_members (Suc (max n n')) acc (enc_str k @ key_sep opts @ enc opts l x @ R) =
      Some (Inr (PDict (dict_of_pairs (rev acc @ (k, x) # ky # kys)), r))" .
  then show ?case unfolding kx eq by blast
qed

lemma join_Cons: "join sep (a # as) = a @ (if as = [] then [] else sep @ join sep as)"
  by (cases as) auto

lemma scan_value_enc:
  "wf_val v \<Longrightarrow> doubles_ok v \<Longrightarrow> seps_ok opts \<Longrightarrow> val_end r \<Longrightarrow>
     \<exists>n. scan_value n (enc opts l v @ r) = Some (Inr (v, r))"
proof (induction v arbitrary: l r)
  case PNone
  have "scan_value (Suc 0) (enc opts l PNone @ r) = Some (Inr (PNone, r))"
    by (simp add: scan_atom_def dquote_def)
  then show ?case by blast
next
  case (PBool b)
  have "scan_value (Suc 0) (enc opts l (PBool b) @ r) = Some (Inr (PBool b, r))"
    by (cases b) (simp_all add: scan_atom_def dquote_def)
  then show ?case by blast
next
  case (PInt i)
  then show ?case using scan_value_enc_int [of r 0 i] by auto
next
  case (PFloat f)
  then show ?case using scan_value_enc_float [of f r 0] by auto
next
  case (PStr s)
  then show ?case using scan_value_enc_str [of 0 s r] by auto
next
  case (PList vs)
  show ?case
  proof (cases "vs = []")
    case True
    have "scan_value (Suc 0) (enc opts l (PList []) @ r) = Some (Inr (PList [], r))"
      by (simp add: skip_ws_Cons_not_ws is_json_ws_def dquote_def)
    with True show ?thesis by blast
  next
    case False
    then obtain x xs where vs: "vs = x # xs" by (cases vs) auto
    have ih: "\<forall>y\<in>set vs. \<forall>r. val_end r \<longrightarrow> (\<exists>n. scan_value n (enc opts (Suc l) y @ r) = Some (Inr (y, r)))"
      using PList.IH PList.prems by (simp add: list_all_iff)
    have ok: "list_all doubles_ok vs" using PList.prems by simp
    define T where "T = join (item_sep opts @ newline_indent opts (Suc l)) (map (enc opts (Suc l)) vs) @
        newline_indent opts l @ CHR '']'' # r"
    obtain n where se: "scan_elems n [] T = Some (Inr (PList vs, r))"
      using scan_elems_enc [OF ih ok PList.prems(3) False ws_str_newline_indent [of opts l], where acc = "[]" and r = r]
      by (auto simp: T_def)
    have xok: "doubles_ok x" using ok vs by simp
    obtain c t where ct: "enc opts (Suc l) x = c # t" "\<not> is_json_ws c" "c \<noteq> CHR '']''"
      using enc_first [OF xok] by blast
    have T: "T = c # t @ (if xs = [] then [] else item_sep opts @ newline_indent opts (Suc l) @
        join (item_sep opts @ newline_indent opts (Suc l)) (map (enc opts (Suc l)) xs)) @
        newline_indent opts l @ CHR '']'' # r"
      by (simp add: T_def vs join_Cons ct)
    then obtain t' where T': "T = c # t'" by blast
    have sk: "skip_ws (newline_indent opts (Suc l) @ T) = T"
      using T' ct by (simp add: skip_ws_ws_append skip_ws_Cons_not_ws)
    have e: "enc opts l (PList vs) @ r = CHR ''['' # newline_indent opts (Suc l) @ T"
      using False by (simp add: T_def)
    have "scan_value (Suc n) (CHR ''['' # newline_indent opts (Suc l) @ T) = scan_elems n [] T"
      using sk T' ct(3) by (simp add: dquote_def)
    with se e show ?thesis by metis
  qed
next
  case (PDict kvs)
  show ?case
  proof (cases "kvs = []")
    case True
    have "scan_value (Suc 0) (enc opts l (PDict []) @ r) = Some (Inr (PDict [], r))"
      by (simp add: skip_ws_Cons_not_ws is_json_ws_def dquote_def)
    with True show ?thesis by blast
  next
    case False
    then obtain k x kvs' where kvs: "kvs = (k, x) # kvs'" by (cases kvs) auto
    have ih: "\<forall>(k, y)\<in>set kvs. \<forall>r. val_end r \<longrightarrow> (\<exists>n. scan_value n (enc opts (Suc l) y @ r) = Some (Inr (y, r)))"
      using PDict.IH PDict.prems by (fastforce simp: list_all_iff)
    have ok: "list_all (\<lambda>(k, v). doubles_ok v) kvs" using PDict.prems by simp
    have dist: "distinct (map fst kvs)" using PDict.prems by simp
    define T where "T = join (item_sep opts @ newline_indent opts (Suc l))
        (map (\<lambda>(k, v). enc_str k @ key_sep opts @ enc opts (Suc l) v) kvs) @
        newline_indent opts l @ CHR ''}'' # r"
    obtain n where se: "scan_members n [] T = Some (Inr (PDict (dict_of_pairs kvs), r))"
      using scan_members_enc [OF ih ok PDict.prems(3) False ws_str_newline_indent [of opts l], where acc = "[]" and r = r]
      by (auto simp: T_def)
    obtain t where T: "T = dquote # t"
      by (simp add: T_def kvs join_Cons enc_str_def)
    have sk: "skip_ws (newline_indent opts (Suc l) @ T) = T"
      using T by (simp add: skip_ws_ws_append skip_ws_Cons_not_ws)
    have e: "enc opts l (PDict kvs) @ r = CHR ''{'' # newline_indent opts (Suc l) @ T"
      using False by (simp add: T_def)
    have "scan_value (Suc n) (CHR ''{'' # newline_indent opts (Suc l) @ T) = scan_members n [] T"
      using sk T by (simp add: dquote_def)
    with se e dict_of_pairs_distinct [OF dist] show ?thesis by metis
  qed
qed

section \<open>sort_keys\<close>

lemma fst_comp_map_snd: "fst \<circ> (\<lambda>(k, v). (k, f v)) = fst"
  by (auto simp: fun_eq_iff)

lemma distinct_map_fst_sort: "distinct (map fst (sort_key fst kvs)) \<longleftrightarrow> distinct (map fst kvs)"
  by (simp add: distinct_map)

lemma sort_dicts_ok: "wf_val v \<Longrightarrow> doubles_ok v \<Longrightarrow> wf_val (sort_dicts v) \<and> doubles_ok (sort_dicts v)"
proof (induction v)
  case (PList vs)
  then show ?case by (auto simp: list_all_iff)
next
  case (PDict kvs)
  have ih: "wf_val (sort_dicts x) \<and> doubles_ok (sort_dicts x)" if a: "(k, x) \<in> set kvs" for k x
  proof -
    have "wf_val x" "doubles_ok x" using PDict.prems a by (auto simp: list_all_iff)
    then show ?thesis using PDict.IH [OF a] by simp
  qed
  have "distinct (map fst kvs)" using PDict.prems by simp
  moreover have "\<forall>(k, v)\<in>set kvs. wf_val (sort_dicts v) \<and> doubles_ok (sort_dicts v)"
    using ih by blast
  ultimately show ?case
    by (auto simp: list_all_iff distinct_map_fst_sort fst_comp_map_snd)
qed simp_all

section \<open>The round trip\<close>

lemma loads_enc:
  assumes "wf_val v" and "doubles_ok v" and "seps_ok opts" and w: "ws_str w"
  shows "loads (enc opts 0 v @ w) = Inr v"
proof -
  define s where "s = enc opts 0 v @ w"
  have ve: "val_end w" using w by (cases w) (auto simp: val_end_def ws_str_def)
  obtain n where sv: "scan_value n s = Some (Inr (v, w))"
    using scan_value_enc [OF assms(1-3) ve, of 0] by (auto simp: s_def)
  have sk: "skip_ws s = s"
    using skip_ws_enc [OF assms(2), of opts 0 w] by (simp add: s_def)
  have fuel: "scan_value (2 * length s + 2) s = Some (Inr (v, w))"
    using scan_value_fuel_indep [where n = n and s = s and m = "2 * length s + 2"] sv by simp
  have "skip_ws w = []" using skip_ws_ws_append [OF w, of "[]"] by (simp add: skip_ws_def)
  then show ?thesis
    unfolding s_def [symmetric] loads_def Let_def sk fuel by simp
qed

text \<open>
  Encoding then decoding is the identity up to key order: for a value Python can hold
  (distinct dict keys, floats that are doubles), \<open>json.loads\<close> of what
  \<open>json.dumps\<close> writes with comma and colon separators, followed by any whitespace,
  is the value, with every dict's keys sorted when \<open>sort_keys\<close> is set.
\<close>

lemma loads_dumps:
  assumes "wf_val v" and "doubles_ok v" and "seps_ok opts" and "ws_str w"
  shows "loads (dumps opts v @ w) = Inr (if sort_keys opts then sort_dicts v else v)"
  using loads_enc [OF _ _ assms(3,4)] sort_dicts_ok [OF assms(1,2)] assms(1,2)
  by (simp add: dumps_def)

section \<open>Arrays of texts\<close>

lemma loads_array_join:
  assumes "\<forall>(t, x)\<in>set txs. (\<exists>c t'. t = c # t' \<and> \<not> is_json_ws c \<and> c \<noteq> CHR '']'') \<and>
      (\<forall>r. val_end r \<longrightarrow> (\<exists>n. scan_value n (t @ r) = Some (Inr (x, r))))"
    and ne: "txs \<noteq> []"
  shows "loads (CHR ''['' # join '','' (map fst txs) @ '']'') = Inr (PList (map snd txs))"
proof -
  define s where "s = CHR ''['' # join '','' (map fst txs) @ '']''"
  obtain n where se: "scan_elems n [] (join '','' (map fst txs) @ [] @ CHR '']'' # []) =
      Some (Inr (PList (map snd txs), []))"
    using scan_elems_join [of txs "'',''" "[]" "[]" "[]" "[]"] assms by (force simp: ws_str_def)
  obtain t x txs' where txs: "txs = (t, x) # txs'" using ne by (cases txs) auto
  obtain c t' where ct: "t = c # t'" "\<not> is_json_ws c" "c \<noteq> CHR '']''"
    using assms(1) txs by auto
  have j: "join '','' (map fst txs) @ '']'' = c # t' @ (if txs' = [] then [] else '','' @ join '','' (map fst txs')) @ '']''"
    by (simp add: txs ct join_Cons)
  have sv: "scan_value (Suc n) s = Some (Inr (PList (map snd txs), []))"
    using se ct j by (simp add: s_def skip_ws_Cons_not_ws dquote_def)
  have "scan_value (2 * length s + 2) s = Some (Inr (PList (map snd txs), []))"
    using scan_value_fuel_indep [where n = "Suc n" and s = s and m = "2 * length s + 2"] sv by (simp add: s_def)
  moreover have "skip_ws s = s" by (simp add: s_def skip_ws_Cons_not_ws is_json_ws_def)
  moreover have "skip_ws [] = []" by (simp add: skip_ws_def)
  ultimately show ?thesis unfolding s_def [symmetric] loads_def Let_def by simp
qed

section \<open>The shape of an encoding\<close>

text \<open>
  Without indentation the encoder writes no line break (string escapes turn one into
  \<open>\n\<close>), and an encoding neither starts nor ends with whitespace: these are what
  pandas relies on when it cuts a JSON-lines text into lines and strips them.
\<close>

definition num_char :: "char \<Rightarrow> bool" where
  "num_char c \<longleftrightarrow> c = CHR ''-'' \<or> c = CHR ''.'' \<or> c = CHR ''e'' \<or> c = CHR ''+'' \<or> is_digit c"

lemma exp_repr_chars: "c \<in> set (exp_repr x) \<Longrightarrow> num_char c"
  by (auto simp: exp_repr_def num_char_def split: if_splits intro: nat_repr_digits)

lemma fin_repr_chars: "c \<in> set (fin_repr m e) \<Longrightarrow> num_char c"
proof -
  define D where "D = nat_repr (nat \<bar>m\<bar>)"
  define p where "p = int (length D) + e"
  have d: "\<And>c. c \<in> set D \<Longrightarrow> num_char c"
    by (simp add: D_def num_char_def nat_repr_digits)
  have z: "num_char (CHR ''0'')" "num_char (CHR ''.'')" "num_char (CHR ''-'')" "num_char (CHR ''e'')"
    by (simp_all add: num_char_def)
  have tl: "\<And>c. c \<in> set (tl D) \<Longrightarrow> num_char c" using d by (cases D) auto
  have hd: "num_char (hd D)" using d by (simp add: D_def)
  assume "c \<in> set (fin_repr m e)"
  then have "c \<in> set (CHR ''-'' # hd D # ''0.'' @ tl D @ ''e'' @ exp_repr (p - 1)) \<or> c \<in> set D"
    unfolding fin_repr_def Let_def D_def [symmetric] p_def [symmetric]
    by (auto split: if_splits dest: in_set_takeD in_set_dropD)
  then show ?thesis using d tl hd z exp_repr_chars [of c "p - 1"] by auto
qed

lemma set_join: "set (join sep xs) \<subseteq> set sep \<union> \<Union> (set ` set xs)"
  by (induction sep xs rule: join.induct) auto

lemma nl_not_num_char: "\<not> num_char (CHR 0x0A)"
  by (simp add: num_char_def is_digit_def)

lemma int_repr_num_chars: "c \<in> set (int_repr i) \<Longrightarrow> num_char c"
  using int_repr_chars [of c i] by (auto simp: num_char_def)

lemma hex_chr_ge: "d < 16 \<Longrightarrow> 48 \<le> (of_char (hex_chr d) :: nat)"
  by (simp add: hex_chr_def digit_chr_def)

lemma esc_char_no_nl: "CHR 0x0A \<notin> set (esc_char c)"
proof -
  have "(of_char c :: nat) div 16 < 16" using nat_of_char_less_256 [of c] by (simp add: div_less_iff_less_mult)
  then have "48 \<le> (of_char (hex_chr (of_char c div 16)) :: nat)" "48 \<le> (of_char (hex_chr (of_char c mod 16)) :: nat)"
    by (simp_all add: hex_chr_ge)
  then have "hex_chr (of_char c div 16) \<noteq> CHR 0x0A" "hex_chr (of_char c mod 16) \<noteq> CHR 0x0A"
    by auto
  then show ?thesis
    by (auto simp: esc_char_def bslash_def dquote_def)
qed

lemma enc_str_no_nl: "CHR 0x0A \<notin> set (enc_str s)"
  using esc_char_no_nl by (auto simp: enc_str_def dquote_def)

lemma enc_no_nl:
  assumes "indent opts = None" and "CHR 0x0A \<notin> set (item_sep opts)" and "CHR 0x0A \<notin> set (key_sep opts)"
  shows "CHR 0x0A \<notin> set (enc opts l v)"
proof (induction v arbitrary: l)
  case (PInt i)
  then show ?case using int_repr_num_chars nl_not_num_char by auto
next
  case (PFloat f)
  then show ?case using fin_repr_chars nl_not_num_char by (cases f) auto
next
  case (PStr s)
  then show ?case by (simp add: enc_str_no_nl)
next
  case (PList vs)
  then show ?case
    using set_join [of "item_sep opts" "map (enc opts (Suc l)) vs"] assms
    by (auto simp: newline_indent_def)
next
  case (PDict kvs)
  have m: "CHR 0x0A \<notin> set (enc_str k @ key_sep opts @ enc opts (Suc l) v)" if kv: "(k, v) \<in> set kvs" for k v
    using PDict.IH [OF kv, of v "Suc l"] assms enc_str_no_nl by simp
  have "CHR 0x0A \<notin> set (join (item_sep opts) (map (\<lambda>(k, v). enc_str k @ key_sep opts @ enc opts (Suc l) v) kvs))"
    using set_join [of "item_sep opts" "map (\<lambda>(k, v). enc_str k @ key_sep opts @ enc opts (Suc l) v) kvs"]
      assms(2) m by fastforce
  then show ?case using assms(1) by (simp add: newline_indent_def)
qed simp_all


lemma py_strip_ends:
  assumes "s \<noteq> []" and "\<not> py_isspace (hd s)" and "\<not> py_isspace (last s)"
  shows "py_strip s = s"
proof -
  have a: "dropWhile py_isspace s = s" using assms(1,2) by (cases s) auto
  obtain y ys where r: "rev s = y # ys" using assms(1) by (cases "rev s") auto
  then have "y = last s" by (metis hd_rev list.sel(1) assms(1))
  then have "dropWhile py_isspace (rev s) = rev s" using assms(3) unfolding r by simp
  with a show ?thesis by (simp add: py_strip_def)
qed

lemma num_char_not_space: "num_char c \<Longrightarrow> \<not> py_isspace c"
  unfolding num_char_def using digit_not_space [of c] by (auto simp: py_isspace_def Let_def)

lemma fin_repr_ne: "fin_repr m e \<noteq> []"
  by (simp add: fin_repr_def Let_def)

lemma ends_not_space:
  assumes "s \<noteq> []" and "\<And>c. c \<in> set s \<Longrightarrow> num_char c"
  shows "\<not> py_isspace (hd s) \<and> \<not> py_isspace (last s)"
  using assms by (simp add: num_char_not_space)

lemma enc_py_strip: "py_strip (enc opts l v) = enc opts l v"
proof (cases v)
  case (PInt i)
  have "int_repr i \<noteq> []" by (simp add: int_repr_def)
  with ends_not_space [OF this int_repr_num_chars [of _ i]] PInt show ?thesis
    by (simp add: py_strip_ends)
next
  case (PFloat f)
  then show ?thesis
  proof (cases f)
    case (Fin m e)
    with ends_not_space [OF fin_repr_ne [of m e] fin_repr_chars [of _ m e]] PFloat show ?thesis
      by (simp add: py_strip_ends fin_repr_ne)
  qed (simp_all add: py_strip_ends py_isspace_def Let_def)
next
  case (PStr s)
  then show ?thesis by (simp add: py_strip_ends enc_str_def py_isspace_def dquote_def Let_def)
qed (simp_all add: py_strip_ends py_isspace_def Let_def)

end
