(* ===== verification/Frame_Read.thy ===== *)
theory Frame_Read
  imports Frame Json_Roundtrip
begin

text \<open>
  What \<open>pd.read_json(user_input, lines=True, dtype=df_schema)\<close> (line 28 of
  \<^verbatim>\<open>src/.ipynb_checkpoints/inference-checkpoint.py\<close>) makes of the data a client sends.
  A client writes a batch of records as JSON lines: each record is written with
  \<open>json.dumps\<close> and its default options (\<open>py_dumps_opts\<close>), one per line (\<open>jsonl\<close>).
  Every frame pandas returns is rectangular and has distinct labels (\<open>wf_frame\<close>). A
  JSON-lines text of records is read as the frame of those records, one row per record
  in order, before the \<open>dtype\<close> casts.
\<close>

section \<open>The client's JSON lines\<close>

text \<open>\<open>json.dumps\<close> with its defaults: no indentation, separators \<open>(', ', ': ')\<close>, keys in insertion order.\<close>

definition py_dumps_opts :: dump_opts where
  "py_dumps_opts = \<lparr>indent = None, item_sep = '', '', key_sep = '': '', sort_keys = False\<rparr>"

definition jsonl :: "(string \<times> pyval) list list \<Rightarrow> string" where
  "jsonl ds = join [CHR 0x0A] (map (\<lambda>d. dumps py_dumps_opts (PDict d)) ds)"

lemma py_dumps_seps: "seps_ok py_dumps_opts"
  by (simp add: seps_ok_def py_dumps_opts_def ws_str_def is_json_ws_def)

lemma dumps_py_dumps: "dumps py_dumps_opts v = enc py_dumps_opts 0 v"
  by (simp add: dumps_def py_dumps_opts_def)

lemma py_dumps_no_nl: "CHR 0x0A \<notin> set (dumps py_dumps_opts v)"
  unfolding dumps_py_dumps by (rule enc_no_nl) (simp_all add: py_dumps_opts_def)

section \<open>Lines\<close>

lemma split_on_no_sep: "c \<notin> set l \<Longrightarrow> split_on c l = [l]"
  by (induction l) auto

lemma split_on_append: "c \<notin> set l \<Longrightarrow> split_on c (l @ c # r) = l # split_on c r"
  by (induction l) auto

lemma split_on_join:
  "ls \<noteq> [] \<Longrightarrow> \<forall>l\<in>set ls. c \<notin> set l \<Longrightarrow> split_on c (join [c] ls) = ls"
  by (induction "[c]" ls rule: join.induct) (simp_all add: split_on_no_sep split_on_append)


lemma join_ends:
  "ls \<noteq> [] \<Longrightarrow> \<forall>l\<in>set ls. l \<noteq> [] \<and> hd l = a \<and> last l = b \<Longrightarrow>
     join sep ls \<noteq> [] \<and> hd (join sep ls) = a \<and> last (join sep ls) = b"
  by (induction sep ls rule: join.induct) auto

lemma dumps_dict_ends:
  "dumps py_dumps_opts (PDict d) \<noteq> [] \<and> hd (dumps py_dumps_opts (PDict d)) = CHR ''{'' \<and>
   last (dumps py_dumps_opts (PDict d)) = CHR ''}''"
  by (simp add: dumps_py_dumps)

lemma jsonl_ends: "ds \<noteq> [] \<Longrightarrow> jsonl ds \<noteq> [] \<and> hd (jsonl ds) = CHR ''{'' \<and> last (jsonl ds) = CHR ''}''"
  unfolding jsonl_def by (rule join_ends) (auto simp: dumps_dict_ends)

section \<open>Where the text comes from\<close>

lemma endswith_last: "endswith s x \<Longrightarrow> x \<noteq> [] \<Longrightarrow> last s = last x"
  by (auto simp: endswith_def) (metis append_take_drop_id last_appendR)

text \<open>
  A text that starts with \<open>{\<close> and ends with \<open>}\<close> is neither a URL nor a path with a
  JSON suffix; unless a file of that name exists, pandas reads it as literal JSON.
\<close>

lemma source_text_literal:
  assumes "s \<noteq> []" and "hd s = CHR ''{''" and "last s = CHR ''}''" and "files env s = None"
  shows "source_text env (PStr s) = Inr s"
proof -
  obtain t where s: "s = CHR ''{'' # t" using assms(1,2) by (cases s) auto
  have "\<not> is_alpha (CHR ''{'')" "\<not> scheme_chr (CHR ''{'')"
    by (simp_all add: is_alpha_def scheme_chr_def is_digit_def)
  then have u: "\<not> is_url s" "\<not> is_fsspec_url s"
    by (simp_all add: s is_url_def url_scheme_def is_fsspec_url_def valid_url_schemes_def)
  have "last (map lower_chr s) = CHR ''}''"
    using assms(1,3) by (simp add: last_map lower_chr_def)
  moreover have sfx: "\<forall>x\<in>set json_suffixes. x \<noteq> [] \<and> last x \<noteq> CHR ''}''"
    by (simp add: json_suffixes_def)
  ultimately have "\<not> list_ex (endswith (map lower_chr s)) json_suffixes"
  proof (clarsimp simp: list_ex_iff)
    fix x assume "last (map lower_chr s) = CHR ''}''" "x \<in> set json_suffixes" "endswith (map lower_chr s) x"
    with sfx endswith_last [of "map lower_chr s" x] show False by auto
  qed
  with u assms(4) show ?thesis by (simp add: source_text_def)
qed


section \<open>Reading JSON lines of records\<close>

lemma combine_lines_records:
  assumes "ds \<noteq> []"
  shows "combine_lines (split_on (CHR 0x0A) (jsonl ds)) =
    CHR ''['' # join '','' (map (\<lambda>d. dumps py_dumps_opts (PDict d)) ds) @ '']''"
proof -
  define ls where "ls = map (\<lambda>d. dumps py_dumps_opts (PDict d)) ds"
  have sp: "split_on (CHR 0x0A) (jsonl ds) = ls"
    using assms py_dumps_no_nl by (simp add: jsonl_def ls_def split_on_join)
  have st: "map py_strip ls = ls"
    by (simp add: ls_def dumps_py_dumps enc_py_strip del: enc.simps)
  have fl: "filter (\<lambda>l. l \<noteq> []) ls = ls"
    using dumps_dict_ends by (simp add: ls_def)
  show ?thesis
    unfolding combine_lines_def sp ls_def [symmetric] st fl ..
qed

lemma dumps_record_reads:
  assumes "wf_val (PDict d)" and "doubles_ok (PDict d)"
  shows "(\<exists>c t'. dumps py_dumps_opts (PDict d) = c # t' \<and> \<not> is_json_ws c \<and> c \<noteq> CHR '']'') \<and>
    (\<forall>r. val_end r \<longrightarrow> (\<exists>n. scan_value n (dumps py_dumps_opts (PDict d) @ r) = Some (Inr (PDict d, r))))"
proof
  obtain t where "dumps py_dumps_opts (PDict d) = CHR ''{'' # t"
    using dumps_dict_ends [of d] by (metis list.collapse)
  moreover have "\<not> is_json_ws (CHR ''{'')" by (simp add: is_json_ws_def)
  ultimately show "\<exists>c t'. dumps py_dumps_opts (PDict d) = c # t' \<and> \<not> is_json_ws c \<and> c \<noteq> CHR '']''"
    by blast
  show "\<forall>r. val_end r \<longrightarrow> (\<exists>n. scan_value n (dumps py_dumps_opts (PDict d) @ r) = Some (Inr (PDict d, r)))"
    unfolding dumps_py_dumps using scan_value_enc [OF assms py_dumps_seps] by blast
qed

lemma loads_records:
  assumes "ds \<noteq> []" and "\<forall>d\<in>set ds. wf_val (PDict d) \<and> doubles_ok (PDict d)"
  shows "loads (combine_lines (split_on (CHR 0x0A) (jsonl ds))) = Inr (PList (map PDict ds))"
proof -
  define txs where "txs = map (\<lambda>d. (dumps py_dumps_opts (PDict d), PDict d)) ds"
  have "\<forall>(t, x)\<in>set txs. (\<exists>c t'. t = c # t' \<and> \<not> is_json_ws c \<and> c \<noteq> CHR '']'') \<and>
      (\<forall>r. val_end r \<longrightarrow> (\<exists>n. scan_value n (t @ r) = Some (Inr (x, r))))"
    using assms(2) dumps_record_reads by (auto simp: txs_def)
  moreover have "txs \<noteq> []" using assms(1) by (simp add: txs_def)
  moreover have "map fst txs = map (\<lambda>d. dumps py_dumps_opts (PDict d)) ds" "map snd txs = map PDict ds"
    by (simp_all add: txs_def comp_def)
  ultimately show ?thesis
    using loads_array_join [of txs] combine_lines_records [OF assms(1)] by simp
qed

section \<open>Every frame is rectangular\<close>

lemma set_uniq [simp]: "set (uniq xs) = set xs"
  by (induction xs rule: uniq.induct) auto

lemma distinct_uniq: "distinct (uniq xs)"
  by (induction xs rule: uniq.induct) auto

lemma wf_frame_records: "wf_frame (frame_of_records ds)"
  by (simp add: wf_frame_def frame_of_records_def list_all_iff comp_def distinct_map distinct_uniq inj_on_def)

lemma wf_frame_rows: "wf_frame (frame_of_rows rs)"
  by (simp add: wf_frame_def frame_of_rows_def list_all_iff comp_def distinct_map inj_on_def)

lemma dataframe_wf:
  assumes "dataframe xs = Inr df"
  shows "wf_frame df"
proof (cases xs)
  case Nil
  with assms have "df = empty_frame" by (simp add: dataframe_def)
  then show ?thesis by (simp add: empty_frame_def wf_frame_def)
next
  case (Cons x xs')
  with assms show ?thesis
    by (auto simp: dataframe_def wf_frame_records wf_frame_rows split: if_splits)
      (simp add: wf_frame_def)
qed

lemma astype_float_length: "astype_float c = Inr c' \<Longrightarrow> length c' = length c"
  by (induction c arbitrary: c') (auto simp: res_bind_eq_Inr)

lemma try_convert_length: "try_convert dt c = Inr c' \<Longrightarrow> length c' = length c"
  by (auto simp: try_convert_def astype_float_length split: sum.splits if_splits)

lemma convert_columns_shape:
  "convert_columns schema cs = Inr cs' \<Longrightarrow>
     map fst cs' = map fst cs \<and> map (\<lambda>(l, c). length c) cs' = map (\<lambda>(l, c). length c) cs"
proof (induction schema cs arbitrary: cs' rule: convert_columns.induct)
  case (1 schema)
  then show ?case by simp
next
  case (2 schema l c cs)
  then obtain c' cs'' where c': "(case l of Name k \<Rightarrow> (case map_of schema k of None \<Rightarrow> Inr c | Some dt \<Rightarrow> try_convert dt c)
      | Pos i \<Rightarrow> Inr c) = Inr c'" and r: "convert_columns schema cs = Inr cs''" and e: "cs' = (l, c') # cs''"
    by (auto simp: res_bind_eq_Inr)
  have "length c' = length c"
    using c' by (auto simp: try_convert_length split: collabel.splits option.splits)
  with "2.IH" [OF r] e show ?case by simp
qed

lemma wf_frame_columns:
  assumes "wf_frame df" and "map fst cs' = map fst (columns df)"
    and "map (\<lambda>(l, c). length c) cs' = map (\<lambda>(l, c). length c) (columns df)"
  shows "wf_frame (df\<lparr>columns := cs'\<rparr>)"
proof -
  have "list_all (\<lambda>(l, c). length c = nrows df) cs' \<longleftrightarrow> list_all (\<lambda>n. n = nrows df) (map (\<lambda>(l, c). length c) cs')"
    by (simp add: list_all_iff split_def)
  with assms show ?thesis
    by (simp add: wf_frame_def list_all_iff split_def)
qed

lemma parsed_frame_Inr:
  "(case parsed of PList xs \<Rightarrow> dataframe xs | _ \<Rightarrow> Inl ValueError) = Inr df0 \<Longrightarrow> wf_frame df0"
  by (cases parsed) (simp_all add: dataframe_wf)

lemma read_json_lines_wf:
  assumes "read_json_lines env v schema = Inr df"
  shows "wf_frame df"
proof -
  from assms obtain parsed df0 cs where
    p: "(case parsed of PList xs \<Rightarrow> dataframe xs | _ \<Rightarrow> Inl ValueError) = Inr df0"
    and c: "convert_columns schema (columns df0) = Inr cs" and df: "df = df0\<lparr>columns := cs\<rparr>"
    unfolding read_json_lines_def res_bind_eq_Inr by blast
  from convert_columns_shape [OF c] parsed_frame_Inr [OF p] show ?thesis
    unfolding df by (blast intro: wf_frame_columns)
qed

section \<open>The frame of a batch of records\<close>

lemma dataframe_records: "ds \<noteq> [] \<Longrightarrow> dataframe (map PDict ds) = Inr (frame_of_records ds)"
  by (cases ds) (simp_all add: dataframe_def list_all_iff comp_def)

lemma read_json_lines_records:
  assumes "ds \<noteq> []" and "\<forall>d\<in>set ds. wf_val (PDict d) \<and> doubles_ok (PDict d)"
    and "files env (jsonl ds) = None"
  shows "read_json_lines env (PStr (jsonl ds)) schema =
    res_bind (convert_columns schema (columns (frame_of_records ds)))
      (\<lambda>cs. Inr ((frame_of_records ds)\<lparr>columns := cs\<rparr>))"
proof -
  have "source_text env (PStr (jsonl ds)) = Inr (jsonl ds)"
    using jsonl_ends [OF assms(1)] assms(3) by (blast intro: source_text_literal)
  with loads_records [OF assms(1,2)] dataframe_records [OF assms(1)] show ?thesis
    by (simp add: read_json_lines_def)
qed

section \<open>When the casts succeed\<close>

text \<open>An \<open>int\<close> that \<open>float()\<close> can convert: below the largest double.\<close>

definition int_fits :: "pyval \<Rightarrow> bool" where
  "int_fits v \<longleftrightarrow> (case v of PInt i \<Rightarrow> \<not> dec_overflows i 0 | _ \<Rightarrow> True)"

lemma py_float_str_error: "py_float_str s = Inl e \<Longrightarrow> e = ValueError"
  by (auto simp: py_float_str_def Let_def split: prod.splits option.splits if_splits)

lemma float_cell_error:
  "float_cell x = Inl e \<Longrightarrow> e = ValueError \<or> e = TypeError \<or> (e = OverflowError \<and> \<not> int_fits x)"
  by (cases x) (auto simp: int_fits_def dest: py_float_str_error split: if_splits)

lemma astype_float_error:
  "astype_float c = Inl e \<Longrightarrow> e = ValueError \<or> e = TypeError \<or> (e = OverflowError \<and> (\<exists>x\<in>set c. \<not> int_fits x))"
  by (induction c) (auto simp: res_bind_eq_Inl dest: float_cell_error)

lemma try_convert_ok: "\<forall>x\<in>set c. int_fits x \<Longrightarrow> \<exists>c'. try_convert dt c = Inr c'"
  using astype_float_error [of c] by (auto simp: try_convert_def split: sum.splits)

lemma convert_columns_ok:
  "\<forall>(l, c)\<in>set cs. \<forall>x\<in>set c. int_fits x \<Longrightarrow> \<exists>cs'. convert_columns schema cs = Inr cs'"
proof (induction schema cs rule: convert_columns.induct)
  case (2 schema l c cs)
  then obtain cs' where r: "convert_columns schema cs = Inr cs'" by auto
  have "\<exists>c'. (case l of Name k \<Rightarrow> (case map_of schema k of None \<Rightarrow> Inr c | Some dt \<Rightarrow> try_convert dt c)
      | Pos i \<Rightarrow> Inr c) = Inr c'"
    using try_convert_ok "2.prems" by (cases l) (auto split: option.splits)
  then obtain c' where "(case l of Name k \<Rightarrow> (case map_of schema k of None \<Rightarrow> Inr c | Some dt \<Rightarrow> try_convert dt c)
      | Pos i \<Rightarrow> Inr c) = Inr c'" ..
  with r show ?case by (auto simp: res_bind_eq_Inr)
qed simp

lemma record_cells:
  assumes "(l, c) \<in> set (columns (frame_of_records ds))" and "x \<in> set c"
  shows "x = PFloat NaN \<or> (\<exists>d\<in>set ds. \<exists>k. (k, x) \<in> set d)"
  using assms by (auto simp: frame_of_records_def record_cell_def split: option.splits)
    (meson map_of_SomeD)

lemma records_convert_ok:
  assumes "\<forall>d\<in>set ds. \<forall>(k, v)\<in>set d. int_fits v"
  shows "\<exists>cs. convert_columns schema (columns (frame_of_records ds)) = Inr cs"
proof (rule convert_columns_ok, clarify)
  fix l c x assume "(l, c) \<in> set (columns (frame_of_records ds))" "x \<in> set c"
  from record_cells [OF this] assms show "int_fits x" by (auto simp: int_fits_def)
qed

section \<open>Columns after the casts\<close>

lemma astype_float_keeps_float:
  "astype_float c = Inr c' \<Longrightarrow> i < length c \<Longrightarrow> c ! i = PFloat f \<Longrightarrow> c' ! i = PFloat f"
proof (induction c arbitrary: c' i)
  case (Cons x xs)
  then obtain y ys where "float_cell x = Inr y" "astype_float xs = Inr ys" "c' = PFloat y # ys"
    by (auto simp: res_bind_eq_Inr)
  with Cons show ?case by (cases i) auto
qed simp

lemma try_convert_keeps_float:
  "try_convert dt c = Inr c' \<Longrightarrow> i < length c \<Longrightarrow> c ! i = PFloat f \<Longrightarrow> c' ! i = PFloat f"
  by (auto simp: try_convert_def astype_float_keeps_float split: sum.splits if_splits)

lemma astype_float_fails:
  "x \<in> set c \<Longrightarrow> float_cell x = Inl e \<Longrightarrow> \<exists>e'. astype_float c = Inl e'"
  by (induction c) (auto simp: res_bind_def split: sum.splits)

text \<open>One cell \<open>float()\<close> cannot read leaves the whole column as it was.\<close>

lemma try_convert_keeps_column:
  assumes "x \<in> set c" and "float_cell x = Inl e" and "\<forall>y\<in>set c. int_fits y"
  shows "try_convert dt c = Inr c"
proof -
  obtain e' where a: "astype_float c = Inl e'" using astype_float_fails [OF assms(1,2)] by blast
  with astype_float_error [OF a] assms(3) have "e' = ValueError \<or> e' = TypeError" by blast
  with a show ?thesis by (auto simp: try_convert_def)
qed

lemma convert_columns_lookup:
  "convert_columns schema cs = Inr cs' \<Longrightarrow> map_of cs (Name k) = Some c \<Longrightarrow> map_of schema k = Some dt \<Longrightarrow>
     \<exists>c'. map_of cs' (Name k) = Some c' \<and> try_convert dt c = Inr c'"
proof (induction schema cs arbitrary: cs' rule: convert_columns.induct)
  case (2 schema l c0 cs)
  then obtain c1 cs'' where c1: "(case l of Name k \<Rightarrow> (case map_of schema k of None \<Rightarrow> Inr c0 | Some dt \<Rightarrow> try_convert dt c0)
      | Pos i \<Rightarrow> Inr c0) = Inr c1" and r: "convert_columns schema cs = Inr cs''" and e: "cs' = (l, c1) # cs''"
    by (auto simp: res_bind_eq_Inr)
  show ?case
  proof (cases "l = Name k")
    case True
    with "2.prems"(2,3) c1 e show ?thesis by simp
  next
    case False
    with "2.IH" [OF r] "2.prems"(2,3) e show ?thesis by simp
  qed
qed simp

lemma map_of_names:
  "map_of (map (\<lambda>k. (Name k, f k)) ks) (Name k) = (if k \<in> set ks then Some (f k) else None)"
  by (induction ks) auto

lemma records_column:
  "k \<in> set (concat (map (map fst) ds)) \<Longrightarrow>
     map_of (columns (frame_of_records ds)) (Name k) = Some (map (\<lambda>d. record_cell d k) ds)"
  by (simp add: frame_of_records_def map_of_names)


lemma astype_float_Inr:
  "\<forall>x\<in>set c. \<exists>f. float_cell x = Inr f \<Longrightarrow> astype_float c = Inr (map (\<lambda>x. PFloat (projr (float_cell x))) c)"
  by (induction c) (auto simp: res_bind_def)

section \<open>Batches of records\<close>

lemma loads_dumps_str: "loads (dumps py_dumps_opts (PStr s)) = Inr (PStr s)"
  using loads_dumps [of "PStr s" py_dumps_opts "[]"] py_dumps_seps
  by (simp add: ws_str_def py_dumps_opts_def)

lemma records_frame:
  assumes "ds \<noteq> []" and "\<forall>d\<in>set ds. wf_val (PDict d) \<and> doubles_ok (PDict d)"
    and "\<forall>d\<in>set ds. \<forall>(k, v)\<in>set d. int_fits v" and "files env (jsonl ds) = None"
  shows "\<exists>df. read_json_lines env (PStr (jsonl ds)) schema = Inr df \<and> wf_frame df \<and> nrows df = length ds \<and>
     map fst (columns df) = map Name (uniq (concat (map (map fst) ds)))"
proof -
  obtain cs where c: "convert_columns schema (columns (frame_of_records ds)) = Inr cs"
    using records_convert_ok [OF assms(3)] by blast
  define df where "df = (frame_of_records ds)\<lparr>columns := cs\<rparr>"
  have r: "read_json_lines env (PStr (jsonl ds)) schema = Inr df"
    using read_json_lines_records [OF assms(1,2,4)] c by (simp add: df_def)
  moreover have "map fst (columns df) = map Name (uniq (concat (map (map fst) ds)))"
    using convert_columns_shape [OF c] by (simp add: df_def frame_of_records_def comp_def)
  moreover have "nrows df = length ds" by (simp add: df_def frame_of_records_def)
  ultimately show ?thesis using read_json_lines_wf [OF r] by blast
qed

lemma loads_raw_jsonl:
  assumes "\<forall>d\<in>set (d1 # d2 # ds). wf_val (PDict d) \<and> doubles_ok (PDict d)"
  shows "loads (jsonl (d1 # d2 # ds)) = Inl (JSONDecodeError ExtraData)"
proof -
  define l1 where "l1 = dumps py_dumps_opts (PDict d1)"
  define rest where "rest = jsonl (d2 # ds)"
  have j: "jsonl (d1 # d2 # ds) = l1 @ CHR 0x0A # rest"
    by (simp add: jsonl_def l1_def rest_def)
  have re: "rest \<noteq> [] \<and> hd rest = CHR ''{''" using jsonl_ends [of "d2 # ds"] by (simp add: rest_def)
  then obtain t where rt: "rest = CHR ''{'' # t" by (cases rest) auto
  have rd: "(\<exists>c t'. l1 = c # t' \<and> \<not> is_json_ws c \<and> c \<noteq> CHR '']'') \<and>
      (\<forall>r. val_end r \<longrightarrow> (\<exists>n. scan_value n (l1 @ r) = Some (Inr (PDict d1, r))))"
    using dumps_record_reads assms by (simp add: l1_def)
  then obtain c t' where ct: "l1 = c # t'" "\<not> is_json_ws c" by blast
  have "val_end (CHR 0x0A # rest)" by (simp add: val_end_def is_json_ws_def)
  with rd obtain n where sv: "scan_value n (l1 @ CHR 0x0A # rest) = Some (Inr (PDict d1, CHR 0x0A # rest))"
    by blast
  define s where "s = l1 @ CHR 0x0A # rest"
  have sk: "skip_ws s = s" using ct by (simp add: s_def skip_ws_Cons_not_ws)
  have fuel: "scan_value (2 * length s + 2) s = Some (Inr (PDict d1, CHR 0x0A # rest))"
    using scan_value_fuel_indep [where n = n and s = s and m = "2 * length s + 2"] sv by (simp add: s_def)
  have "skip_ws (CHR 0x0A # rest) = rest"
    using rt by (simp add: skip_ws_def is_json_ws_def)
  with re show ?thesis
    unfolding j s_def [symmetric] loads_def Let_def sk fuel by simp
qed

lemma record_key_in:
  "i < length ds \<Longrightarrow> map_of (ds ! i) k = Some v \<Longrightarrow> k \<in> set (concat (map (map fst) ds))"
proof -
  assume i: "i < length ds" and k: "map_of (ds ! i) k = Some v"
  have "(k, v) \<in> set (ds ! i)" using k by (rule map_of_SomeD)
  then have "k \<in> set (map fst (ds ! i))" by force
  moreover have "ds ! i \<in> set ds" using i by simp
  ultimately show ?thesis by auto
qed

lemma record_column_fits:
  assumes "\<forall>d\<in>set ds. \<forall>(k, v)\<in>set d. int_fits v" and "k \<in> set (concat (map (map fst) ds))"
  shows "\<forall>y\<in>set (map (\<lambda>d. record_cell d k) ds). int_fits y"
proof
  fix y assume y: "y \<in> set (map (\<lambda>d. record_cell d k) ds)"
  have "(Name k, map (\<lambda>d. record_cell d k) ds) \<in> set (columns (frame_of_records ds))"
    using records_column [OF assms(2)] by (rule map_of_SomeD)
  from record_cells [OF this y] assms(1) show "int_fits y" by (auto simp: int_fits_def)
qed

end
