(* ===== verification/App.thy ===== *)
theory App
  imports Flask_Http Frame_Read "HOL-Library.Word"
begin

text \<open>
  The service itself, \<^verbatim>\<open>src/.ipynb_checkpoints/inference-checkpoint.py\<close>, one definition
  per step of the script: the Flask object (line 7), the model loaded at import (line 10),
  the two routes (lines 14 to 33) and the main block (lines 37 to 41). The loaded model is
  opaque: a value of a type variable \<open>'m\<close> together with the \<open>predict\<close> function of the
  \<open>mlflow.pyfunc\<close> flavour, which may raise and may return any of the output types of
  \<open>PyFuncOutput\<close>.
\<close>

section \<open>The application object and the model\<close>

definition api_name :: string where
  "api_name = ''ModelEndpoint''"

definition model_uri :: string where
  "model_uri = ''./best_estimator''"

text \<open>What \<open>model.predict\<close> may return.\<close>

datatype pyfunc_output =
    NdArray "pyval list"
  | PdSeries "pyval list"
  | PdFrame frame
  | PyList "pyval list"

type_synonym 'm predictor = "'m \<Rightarrow> frame \<Rightarrow> pyfunc_output result"

text \<open>\<open>.tolist()\<close>: numpy arrays and pandas series have it; a DataFrame or a plain list does not.\<close>

fun tolist :: "pyfunc_output \<Rightarrow> pyval list result" where
  "tolist (NdArray xs) = Inr xs"
| "tolist (PdSeries xs) = Inr xs"
| "tolist (PdFrame df) = Inl AttributeError"
| "tolist (PyList xs) = Inl AttributeError"

section \<open>Routes\<close>

datatype endpoint = Home | MakePredictions

definition url_map :: "endpoint rule list" where
  "url_map =
     [\<lparr>rule_path = ''/'', rule_methods = route_methods [GET], rule_endpoint = Home\<rparr>,
      \<lparr>rule_path = ''/predict'', rule_methods = route_methods [POST], rule_endpoint = MakePredictions\<rparr>]"

text \<open>Route 1, the health check.\<close>

definition home :: "view_rv result" where
  "home = Inr (RvDict (PDict [(''message'', PStr ''Hi there!''), (''success'', PBool True)]) 200)"

text \<open>Route 2, lines 22 to 33.\<close>

definition df_schema :: "(string \<times> dtype) list" where
  "df_schema = [(''gre'', Float64), (''gpa'', Float64)]"

definition make_predictions :: "'m predictor \<Rightarrow> 'm \<Rightarrow> io_env \<Rightarrow> request \<Rightarrow> view_rv result" where
  "make_predictions predict model env req =
     res_bind (get_json req) (\<lambda>user_input.
     res_bind (read_json_lines env user_input df_schema) (\<lambda>user_input_df.
     res_bind (res_bind (predict model user_input_df) tolist) (\<lambda>predictions.
     Inr (RvDict (PDict [(''predictions'', PList predictions)]) 200))))"

fun view :: "'m predictor \<Rightarrow> 'm \<Rightarrow> io_env \<Rightarrow> endpoint \<Rightarrow> request \<Rightarrow> view_rv result" where
  "view predict model env Home req = home"
| "view predict model env MakePredictions req = make_predictions predict model env req"

definition handle :: "'m predictor \<Rightarrow> 'm \<Rightarrow> io_env \<Rightarrow> request \<Rightarrow> response" where
  "handle predict model env req = dispatch url_map (view predict model env) req"

section \<open>The main block\<close>

text \<open>\<open>int(os.environ.get("PORT", 8080))\<close>.\<close>

definition port_setting :: "(string \<rightharpoonup> string) \<Rightarrow> int result" where
  "port_setting environ = (case environ ''PORT'' of None \<Rightarrow> Inr 8080 | Some s \<Rightarrow> py_int s)"

text \<open>
  Binding the listening socket: CPython's \<open>socket.bind\<close> raises \<open>OverflowError\<close> for a
  port outside 0 to 65535; the operating system may still refuse a port in range.
\<close>

definition bind_port :: "int \<Rightarrow> 16 word result" where
  "bind_port p = (if 0 \<le> p \<and> p < 65536 then Inr (word_of_int p) else Inl OverflowError)"

record run_config =
  host :: string
  port :: "16 word"
  debug :: bool

definition run_config_of :: "(string \<rightharpoonup> string) \<Rightarrow> run_config result" where
  "run_config_of environ =
     res_bind (port_setting environ) (\<lambda>p.
     res_bind (bind_port p) (\<lambda>w. Inr \<lparr>host = ''0.0.0.0'', port = w, debug = True\<rparr>))"

section \<open>Properties of the routes\<close>

abbreviation predict_req :: "string \<Rightarrow> request" where
  "predict_req b \<equiv> \<lparr>req_method = POST, req_path = ''/predict'', req_body = b\<rparr>"

abbreviation home_dict :: pyval where
  "home_dict \<equiv> PDict [(''message'', PStr ''Hi there!''), (''success'', PBool True)]"

text \<open>The two records of the request example in the documentation, and two variants of them.\<close>

abbreviation spec_batch :: "(string \<times> pyval) list list" where
  "spec_batch \<equiv> [[(''gre'', PInt 320), (''gpa'', PFloat (Fin 38 (-1)))],
                   [(''gre'', PInt 300), (''gpa'', PFloat (Fin 32 (-1)))]]"

abbreviation gpa_missing :: "(string \<times> pyval) list list" where
  "gpa_missing \<equiv> [[(''gre'', PInt 320), (''gpa'', PFloat (Fin 38 (-1)))], [(''gre'', PInt 300)]]"

abbreviation gre_text :: "(string \<times> pyval) list list" where
  "gre_text \<equiv> [[(''gre'', PStr ''n/a''), (''gpa'', PFloat (Fin 38 (-1)))],
               [(''gre'', PInt 300), (''gpa'', PFloat (Fin 32 (-1)))]]"

lemma handle_predict_req:
  "handle P m env (predict_req b) = finish (make_predictions P m env (predict_req b))"
  by (simp add: handle_def dispatch_def dispatch_rule_def url_map_def route_methods_def)

lemma get_json_predict_req: "get_json (predict_req b) = (case loads b of Inl e \<Rightarrow> Inl BadRequest | Inr v \<Rightarrow> Inr v)"
  by (simp add: get_json_def)

lemma finish_error_500: "e \<noteq> BadRequest \<Longrightarrow> finish (Inl e) = \<lparr>status = 500, body = ErrorPage 500, allow = []\<rparr>"
  by (simp add: finish_def error_response_def)

text \<open>Nothing the data path raises after the body is decoded is an HTTP exception.\<close>

lemma loads_not_bad_request: "loads s \<noteq> Inl BadRequest"
  using loads_error [of s BadRequest] by auto

lemma source_text_not_bad_request: "source_text env v \<noteq> Inl BadRequest"
  by (auto simp: source_text_def split: pyval.splits option.splits)

lemma dataframe_not_bad_request: "dataframe xs \<noteq> Inl BadRequest"
  by (auto simp: dataframe_def split: list.splits)

lemma py_float_str_not_bad_request: "py_float_str s \<noteq> Inl BadRequest"
  by (auto simp: py_float_str_def Let_def split: prod.splits option.splits)

lemma float_cell_not_bad_request: "float_cell x \<noteq> Inl BadRequest"
  by (cases x) (auto simp: py_float_str_not_bad_request)

lemma astype_float_not_bad_request: "astype_float c \<noteq> Inl BadRequest"
  by (induction c) (auto simp: res_bind_eq_Inl float_cell_not_bad_request)

lemma try_convert_not_bad_request: "try_convert dt c \<noteq> Inl BadRequest"
  using astype_float_not_bad_request [of c]
  by (auto simp: try_convert_def split: sum.splits)

lemma convert_columns_not_bad_request: "convert_columns schema cs \<noteq> Inl BadRequest"
  by (induction schema cs rule: convert_columns.induct)
    (auto simp: res_bind_eq_Inl try_convert_not_bad_request split: collabel.splits option.splits)

lemma read_json_lines_not_bad_request: "read_json_lines env v schema \<noteq> Inl BadRequest"
  by (auto simp: read_json_lines_def res_bind_eq_Inl source_text_not_bad_request
      loads_not_bad_request dataframe_not_bad_request convert_columns_not_bad_request
      split: pyval.splits)

lemma make_predictions_decoded:
  "loads b = Inr u \<Longrightarrow> make_predictions P m env (predict_req b) =
     res_bind (read_json_lines env u df_schema) (\<lambda>df.
     res_bind (res_bind (P m df) tolist) (\<lambda>ps. Inr (RvDict (PDict [(''predictions'', PList ps)]) 200)))"
  by (simp add: make_predictions_def get_json_predict_req)

section \<open>Claims about the routes\<close>

text \<open>
  C1. A prediction request whose body decodes, whose data pandas reads, and whose
  model call returns an array or series is answered with status 200 and the JSON object
  \<open>{"predictions": [...]}\<close> holding exactly the model's output list, in its order.
\<close>

theorem predict_success:
  assumes "loads b = Inr u" and "read_json_lines env u df_schema = Inr df"
    and "P m df = Inr out" and "tolist out = Inr ps"
  shows "handle P m env (predict_req b) = json_response (PDict [(''predictions'', PList ps)]) 200"
  using assms by (simp add: handle_predict_req make_predictions_decoded finish_def)

theorem predict_success_witness:
  "loads (enc_str ''  '') = Inr (PStr ''  '') \<and>
   read_json_lines \<lparr>files = Map.empty, urls = Map.empty\<rparr> (PStr ''  '') df_schema = Inr empty_frame \<and>
   (\<lambda>(m::unit) df. Inr (NdArray [PInt 1])) () empty_frame = Inr (NdArray [PInt 1]) \<and>
   tolist (NdArray [PInt 1]) = Inr [PInt 1] \<and>
   handle (\<lambda>(m::unit) df. Inr (NdArray [PInt 1])) () \<lparr>files = Map.empty, urls = Map.empty\<rparr>
     (predict_req (enc_str ''  '')) = json_response (PDict [(''predictions'', PList [PInt 1])]) 200"
proof -
  have l: "loads (enc_str ''  '') = Inr (PStr ''  '')"
    by code_simp
  have r: "read_json_lines \<lparr>files = Map.empty, urls = Map.empty\<rparr> (PStr ''  '') df_schema = Inr empty_frame"
    by code_simp
  show ?thesis
    using predict_success [OF l r, of "\<lambda>(m::unit) df. Inr (NdArray [PInt 1])" "()"] l r by simp
qed

text \<open>
  C3. A body that is not valid JSON (a raw JSON-lines batch, an empty body, a truncated
  document) is answered with 400 Bad Request, whatever the model: \<open>get_json(force=True)\<close>
  raises \<open>BadRequest\<close> before pandas or the model is reached.
\<close>

theorem predict_malformed_body:
  assumes "loads b = Inl e"
  shows "handle P m env (predict_req b) = \<lparr>status = 400, body = ErrorPage 400, allow = []\<rparr>"
  using assms by (simp add: handle_predict_req make_predictions_def get_json_predict_req
      finish_def error_response_def)

theorem predict_malformed_body_witness:
  "loads ''{}{}'' = Inl (JSONDecodeError ExtraData) \<and>
   handle (\<lambda>(m::unit) df. Inr (NdArray [])) () \<lparr>files = Map.empty, urls = Map.empty\<rparr> (predict_req ''{}{}'') =
     \<lparr>status = 400, body = ErrorPage 400, allow = []\<rparr>"
proof -
  have l: "loads ''{}{}'' = Inl (JSONDecodeError ExtraData)" by code_simp
  show ?thesis using predict_malformed_body [OF l] l by simp
qed

text \<open>
  C5. A body that is valid JSON but not a JSON string (for instance one record
  \<open>{"gre": 320, "gpa": 3.8}\<close> as the specification's example sends it) is answered with
  500: \<open>pd.read_json\<close> is handed a dict or a number, which it rejects, and the exception
  reaches the debugger. The service only accepts a JSON string whose content is the
  JSON-lines batch.
\<close>

theorem predict_body_not_string:
  assumes "loads b = Inr u" and "\<forall>s. u \<noteq> PStr s"
  shows "handle P m env (predict_req b) = \<lparr>status = 500, body = ErrorPage 500, allow = []\<rparr>"
proof -
  have "source_text env u = Inl ValueError"
    using assms(2) by (cases u) (auto simp: source_text_def)
  then have "read_json_lines env u df_schema = Inl ValueError"
    by (simp add: read_json_lines_def)
  with assms(1) show ?thesis
    by (simp add: handle_predict_req make_predictions_decoded finish_error_500)
qed

theorem predict_body_not_string_witness:
  "loads ''{}'' = Inr (PDict []) \<and> (\<forall>s. PDict [] \<noteq> PStr s) \<and>
   handle (\<lambda>(m::unit) df. Inr (NdArray [])) () \<lparr>files = Map.empty, urls = Map.empty\<rparr> (predict_req ''{}'') =
     \<lparr>status = 500, body = ErrorPage 500, allow = []\<rparr>"
proof -
  have l: "loads ''{}'' = Inr (PDict [])" by code_simp
  have n: "\<forall>s. PDict [] \<noteq> PStr s" by simp
  show ?thesis using predict_body_not_string [OF l n] l by simp
qed

text \<open>
  C6. Once the body has decoded, every later failure (pandas cannot read the data, the
  model raises, or its output has no \<open>tolist\<close>) is answered with 500, never with a
  client error: the code does not tell bad input from a model failure.
\<close>

theorem predict_later_failure:
  assumes "loads b = Inr u"
    and "read_json_lines env u df_schema = Inl e \<or>
         (\<exists>df. read_json_lines env u df_schema = Inr df \<and> res_bind (P m df) tolist = Inl e \<and>
               e \<noteq> BadRequest)"
  shows "handle P m env (predict_req b) = \<lparr>status = 500, body = ErrorPage 500, allow = []\<rparr>"
  using assms(2)
proof
  assume "read_json_lines env u df_schema = Inl e"
  moreover have "e \<noteq> BadRequest"
    using calculation read_json_lines_not_bad_request by metis
  ultimately show ?thesis
    using assms(1) by (simp add: handle_predict_req make_predictions_decoded finish_error_500)
next
  assume "\<exists>df. read_json_lines env u df_schema = Inr df \<and> res_bind (P m df) tolist = Inl e \<and>
               e \<noteq> BadRequest"
  then obtain df where "read_json_lines env u df_schema = Inr df"
    and "res_bind (P m df) tolist = Inl e" and "e \<noteq> BadRequest" by blast
  then show ?thesis
    using assms(1) by (simp add: handle_predict_req make_predictions_decoded finish_error_500)
qed

theorem predict_later_failure_witness:
  "loads (enc_str ''  '') = Inr (PStr ''  '') \<and>
   (read_json_lines \<lparr>files = Map.empty, urls = Map.empty\<rparr> (PStr ''  '') df_schema = Inl AttributeError \<or>
    (\<exists>df. read_json_lines \<lparr>files = Map.empty, urls = Map.empty\<rparr> (PStr ''  '') df_schema = Inr df \<and>
       res_bind ((\<lambda>(m::unit) df. Inr (PdFrame df)) () df) tolist = Inl AttributeError \<and>
       AttributeError \<noteq> BadRequest)) \<and>
   handle (\<lambda>(m::unit) df. Inr (PdFrame df)) () \<lparr>files = Map.empty, urls = Map.empty\<rparr>
     (predict_req (enc_str ''  '')) = \<lparr>status = 500, body = ErrorPage 500, allow = []\<rparr>"
proof -
  have l: "loads (enc_str ''  '') = Inr (PStr ''  '')" by code_simp
  have r: "read_json_lines \<lparr>files = Map.empty, urls = Map.empty\<rparr> (PStr ''  '') df_schema = Inr empty_frame"
    by code_simp
  have h: "read_json_lines \<lparr>files = Map.empty, urls = Map.empty\<rparr> (PStr ''  '') df_schema = Inl AttributeError \<or>
    (\<exists>df. read_json_lines \<lparr>files = Map.empty, urls = Map.empty\<rparr> (PStr ''  '') df_schema = Inr df \<and>
       res_bind ((\<lambda>(m::unit) df. Inr (PdFrame df)) () df) tolist = Inl AttributeError \<and>
       AttributeError \<noteq> BadRequest)"
    using r by simp
  show ?thesis using predict_later_failure [OF l h] l h by simp
qed

text \<open>
  C13. The health check answers every \<open>GET /\<close> with status 200 and the JSON object
  \<open>{"message": "Hi there!", "success": true}\<close>, whatever the model, the environment and
  the request body.
\<close>

theorem home_always_ok:
  "handle P m env \<lparr>req_method = GET, req_path = ''/'', req_body = b\<rparr> = json_response home_dict 200"
  by (simp add: handle_def dispatch_def dispatch_rule_def url_map_def route_methods_def finish_def home_def)



section \<open>Claims about the main block\<close>




text \<open>
  C17. \<open>PORT\<close> round trip: the default is 8080, and a port written in \<open>PORT\<close> as
  Python prints an integer is the port the server binds, for every value from 0 to 65535.
\<close>

theorem port_env_roundtrip:
  "run_config_of Map.empty = Inr \<lparr>host = ''0.0.0.0'', port = 8080, debug = True\<rparr> \<and>
   (0 \<le> p \<and> p < 65536 \<longrightarrow>
      run_config_of [''PORT'' \<mapsto> int_repr p] = Inr \<lparr>host = ''0.0.0.0'', port = word_of_int p, debug = True\<rparr>)"
  by (simp add: run_config_of_def port_setting_def bind_port_def py_int_int_repr)

theorem port_env_roundtrip_witness:
  "run_config_of [''PORT'' \<mapsto> int_repr 5000] = Inr \<lparr>host = ''0.0.0.0'', port = 5000, debug = True\<rparr>"
proof -
  have "run_config_of [''PORT'' \<mapsto> int_repr 5000] = Inr \<lparr>host = ''0.0.0.0'', port = word_of_int 5000, debug = True\<rparr>"
    using port_env_roundtrip [of 5000] by simp
  then show ?thesis by simp
qed

section \<open>What the client reads\<close>

lemma ws_str_newline: "ws_str [CHR 0x0A]"
  by (simp add: ws_str_def is_json_ws_def)

lemma json_response_decodes:
  assumes "wf_val v" and "doubles_ok v"
  shows "body (json_response v code) = JsonText (dumps flask_debug_opts v @ [CHR 0x0A]) \<and>
    loads (dumps flask_debug_opts v @ [CHR 0x0A]) = Inr (sort_dicts v)"
  using loads_dumps [OF assms flask_debug_seps ws_str_newline]
  by (simp add: json_response_def flask_debug_opts_def)

text \<open>
  C15. A client that decodes the body of a successful prediction response, exactly as it
  is sent (indented, with a trailing newline), gets back the object
  \<open>{"predictions": ps}\<close> with the model's output list \<open>ps\<close> (its dicts with sorted keys),
  provided the outputs are values Python can hold.
\<close>

theorem predict_response_decodes:
  assumes "loads b = Inr u" and "read_json_lines env u df_schema = Inr df"
    and "P m df = Inr out" and "tolist out = Inr ps"
    and "list_all wf_val ps" and "list_all doubles_ok ps"
  shows "\<exists>t. body (handle P m env (predict_req b)) = JsonText t \<and>
    loads t = Inr (PDict [(''predictions'', PList (map sort_dicts ps))])"
proof -
  have r: "handle P m env (predict_req b) = json_response (PDict [(''predictions'', PList ps)]) 200"
    using assms(1-4) by (simp add: handle_predict_req make_predictions_decoded finish_def)
  have "wf_val (PDict [(''predictions'', PList ps)])" "doubles_ok (PDict [(''predictions'', PList ps)])"
    using assms(5,6) by simp_all
  from json_response_decodes [OF this, of 200] r show ?thesis by simp
qed

theorem predict_response_decodes_witness:
  "loads (enc_str ''  '') = Inr (PStr ''  '') \<and>
   read_json_lines \<lparr>files = Map.empty, urls = Map.empty\<rparr> (PStr ''  '') df_schema = Inr empty_frame \<and>
   (\<lambda>(m::unit) df. Inr (NdArray [PFloat (Fin 5 (-1))])) () empty_frame = Inr (NdArray [PFloat (Fin 5 (-1))]) \<and>
   tolist (NdArray [PFloat (Fin 5 (-1))]) = Inr [PFloat (Fin 5 (-1))] \<and>
   list_all wf_val [PFloat (Fin 5 (-1))] \<and> list_all doubles_ok [PFloat (Fin 5 (-1))] \<and>
   (\<exists>t. body (handle (\<lambda>(m::unit) df. Inr (NdArray [PFloat (Fin 5 (-1))])) () \<lparr>files = Map.empty, urls = Map.empty\<rparr>
       (predict_req (enc_str ''  ''))) = JsonText t \<and>
     loads t = Inr (PDict [(''predictions'', PList [PFloat (Fin 5 (-1))])]))"
proof -
  have l: "loads (enc_str ''  '') = Inr (PStr ''  '')"
    by code_simp
  have r: "read_json_lines \<lparr>files = Map.empty, urls = Map.empty\<rparr> (PStr ''  '') df_schema = Inr empty_frame"
    by code_simp
  have d: "list_all doubles_ok [PFloat (Fin 5 (-1))]"
    by (simp add: is_double_def dec_overflows_def dec_underflows_def)
  show ?thesis
    using predict_response_decodes [OF l r, of "\<lambda>(m::unit) df. Inr (NdArray [PFloat (Fin 5 (-1))])" "()"
        "NdArray [PFloat (Fin 5 (-1))]" "[PFloat (Fin 5 (-1))]"] l r d
    by simp
qed

section \<open>Batches of records\<close>

text \<open>
  The client of the documentation sends a list of records as JSON lines, wrapped in a JSON
  string: \<open>json.dumps(df.to_json(orient="records", lines=True))\<close>, which is
  \<open>dumps py_dumps_opts (PStr (jsonl ds))\<close>.
\<close>

lemma batch_request:
  assumes "ds \<noteq> []" and "\<forall>d\<in>set ds. wf_val (PDict d) \<and> doubles_ok (PDict d)"
    and "\<forall>d\<in>set ds. \<forall>(k, v)\<in>set d. int_fits v" and "files env (jsonl ds) = None"
  obtains cs where "convert_columns df_schema (columns (frame_of_records ds)) = Inr cs"
    and "read_json_lines env (PStr (jsonl ds)) df_schema = Inr ((frame_of_records ds)\<lparr>columns := cs\<rparr>)"
    and "handle P m env (predict_req (dumps py_dumps_opts (PStr (jsonl ds)))) =
      finish (res_bind (res_bind (P m ((frame_of_records ds)\<lparr>columns := cs\<rparr>)) tolist)
        (\<lambda>ps. Inr (RvDict (PDict [(''predictions'', PList ps)]) 200)))"
proof -
  obtain cs where c: "convert_columns df_schema (columns (frame_of_records ds)) = Inr cs"
    using records_convert_ok [OF assms(3)] by blast
  then have r: "read_json_lines env (PStr (jsonl ds)) df_schema = Inr ((frame_of_records ds)\<lparr>columns := cs\<rparr>)"
    using read_json_lines_records [OF assms(1,2,4)] by simp
  then have "handle P m env (predict_req (dumps py_dumps_opts (PStr (jsonl ds)))) =
      finish (res_bind (res_bind (P m ((frame_of_records ds)\<lparr>columns := cs\<rparr>)) tolist)
        (\<lambda>ps. Inr (RvDict (PDict [(''predictions'', PList ps)]) 200)))"
    by (simp add: handle_predict_req make_predictions_decoded [OF loads_dumps_str])
  with c r that show ?thesis by blast
qed

lemma df_schema_gre_gpa: "map_of df_schema ''gre'' = Some Float64" "map_of df_schema ''gpa'' = Some Float64"
  by (simp_all add: df_schema_def)

text \<open>
  C2. A batch of records sent the documented way is read as one row per record, with one
  column per key in order of first appearance, and the model is called once on that frame;
  the response carries its predictions.
\<close>

theorem predict_jsonl_batch:
  assumes "ds \<noteq> []" and "\<forall>d\<in>set ds. wf_val (PDict d) \<and> doubles_ok (PDict d)"
    and "\<forall>d\<in>set ds. \<forall>(k, v)\<in>set d. int_fits v" and "files env (jsonl ds) = None"
  shows "\<exists>df. read_json_lines env (PStr (jsonl ds)) df_schema = Inr df \<and> wf_frame df \<and>
     nrows df = length ds \<and> map fst (columns df) = map Name (uniq (concat (map (map fst) ds))) \<and>
     handle P m env (predict_req (dumps py_dumps_opts (PStr (jsonl ds)))) =
       finish (res_bind (res_bind (P m df) tolist) (\<lambda>ps. Inr (RvDict (PDict [(''predictions'', PList ps)]) 200)))"
  using records_frame [OF assms, of df_schema]
  by (auto simp: handle_predict_req make_predictions_decoded [OF loads_dumps_str])


theorem predict_jsonl_batch_witness:
  "\<exists>df. read_json_lines \<lparr>files = Map.empty, urls = Map.empty\<rparr> (PStr (jsonl spec_batch)) df_schema = Inr df \<and>
     wf_frame df \<and> nrows df = length spec_batch \<and> map fst (columns df) = [Name ''gre'', Name ''gpa''] \<and>
     handle (\<lambda>(m::unit) df. Inr (NdArray [PInt 1, PInt 0])) () \<lparr>files = Map.empty, urls = Map.empty\<rparr>
       (predict_req (dumps py_dumps_opts (PStr (jsonl spec_batch)))) =
     json_response (PDict [(''predictions'', PList [PInt 1, PInt 0])]) 200"
proof -
  have a: "\<forall>d\<in>set spec_batch. wf_val (PDict d) \<and> doubles_ok (PDict d)"
    by (simp add: is_double_def dec_overflows_def dec_underflows_def)
  have b: "\<forall>d\<in>set spec_batch. \<forall>(k, v)\<in>set d. int_fits v"
    by (simp add: int_fits_def dec_overflows_def)
  have c: "files \<lparr>files = Map.empty, urls = Map.empty\<rparr> (jsonl spec_batch) = None" by simp
  have u: "uniq (concat (map (map fst) spec_batch)) = [''gre'', ''gpa'']" by code_simp
  show "\<exists>df. read_json_lines \<lparr>files = Map.empty, urls = Map.empty\<rparr> (PStr (jsonl spec_batch)) df_schema = Inr df \<and>
     wf_frame df \<and> nrows df = length spec_batch \<and> map fst (columns df) = [Name ''gre'', Name ''gpa''] \<and>
     handle (\<lambda>(m::unit) df. Inr (NdArray [PInt 1, PInt 0])) () \<lparr>files = Map.empty, urls = Map.empty\<rparr>
       (predict_req (dumps py_dumps_opts (PStr (jsonl spec_batch)))) =
     json_response (PDict [(''predictions'', PList [PInt 1, PInt 0])]) 200"
    using predict_jsonl_batch [OF _ a b c, of "\<lambda>(m::unit) df. Inr (NdArray [PInt 1, PInt 0])" "()"] u
    by (simp add: finish_def del: One_nat_def length_Cons)
qed


text \<open>
  C4. The same lines sent as the body itself, not wrapped in a JSON string, are refused
  with 400: \<open>get_json\<close> stops after the first record with \<open>Extra data\<close>.
\<close>

theorem predict_raw_jsonl:
  assumes "\<forall>d\<in>set (d1 # d2 # ds). wf_val (PDict d) \<and> doubles_ok (PDict d)"
  shows "handle P m env (predict_req (jsonl (d1 # d2 # ds))) = \<lparr>status = 400, body = ErrorPage 400, allow = []\<rparr>"
  using loads_raw_jsonl [OF assms]
  by (simp add: handle_predict_req make_predictions_def get_json_predict_req finish_def error_response_def)


theorem predict_raw_jsonl_witness:
  "handle (\<lambda>(m::unit) df. Inr (NdArray [PInt 1, PInt 0])) () \<lparr>files = Map.empty, urls = Map.empty\<rparr>
     (predict_req (jsonl spec_batch)) = \<lparr>status = 400, body = ErrorPage 400, allow = []\<rparr>"
proof -
  have a: "\<forall>d\<in>set spec_batch. wf_val (PDict d) \<and> doubles_ok (PDict d)"
    by (simp add: is_double_def dec_overflows_def dec_underflows_def)
  show ?thesis by (rule predict_raw_jsonl [OF a])
qed

text \<open>
  C7. The \<open>dtype\<close> casts reach the model: when every cell of \<open>gre\<close> or \<open>gpa\<close> is a number
  \<open>float()\<close> accepts, the model sees that column as the list of those floats.
\<close>

theorem predict_float_columns:
  assumes "\<forall>d\<in>set ds. wf_val (PDict d) \<and> doubles_ok (PDict d)"
    and "\<forall>d\<in>set ds. \<forall>(k, v)\<in>set d. int_fits v" and "files env (jsonl ds) = None"
    and k: "k \<in> {''gre'', ''gpa''}" and has: "k \<in> set (concat (map (map fst) ds))"
    and conv: "\<forall>d\<in>set ds. \<exists>f. float_cell (record_cell d k) = Inr f"
  shows "\<exists>df. read_json_lines env (PStr (jsonl ds)) df_schema = Inr df \<and>
    column df (Name k) = Some (map (\<lambda>d. PFloat (projr (float_cell (record_cell d k)))) ds) \<and>
    handle P m env (predict_req (dumps py_dumps_opts (PStr (jsonl ds)))) =
      finish (res_bind (res_bind (P m df) tolist) (\<lambda>ps. Inr (RvDict (PDict [(''predictions'', PList ps)]) 200)))"
proof -
  have ne: "ds \<noteq> []" using has by auto
  obtain cs where c: "convert_columns df_schema (columns (frame_of_records ds)) = Inr cs"
    and r: "read_json_lines env (PStr (jsonl ds)) df_schema = Inr ((frame_of_records ds)\<lparr>columns := cs\<rparr>)"
    and h: "handle P m env (predict_req (dumps py_dumps_opts (PStr (jsonl ds)))) =
      finish (res_bind (res_bind (P m ((frame_of_records ds)\<lparr>columns := cs\<rparr>)) tolist)
        (\<lambda>ps. Inr (RvDict (PDict [(''predictions'', PList ps)]) 200)))"
    by (rule batch_request [OF ne assms(1-3)])
  have sch: "map_of df_schema k = Some Float64" using k by (auto simp: df_schema_def)
  obtain c' where c': "map_of cs (Name k) = Some c'"
    and t: "try_convert Float64 (map (\<lambda>d. record_cell d k) ds) = Inr c'"
    using convert_columns_lookup [OF c records_column [OF has] sch] by blast
  have "astype_float (map (\<lambda>d. record_cell d k) ds) =
      Inr (map (\<lambda>x. PFloat (projr (float_cell x))) (map (\<lambda>d. record_cell d k) ds))"
    using conv by (intro astype_float_Inr) auto
  with t have "c' = map (\<lambda>d. PFloat (projr (float_cell (record_cell d k)))) ds"
    by (simp add: try_convert_def comp_def)
  with c' have "column ((frame_of_records ds)\<lparr>columns := cs\<rparr>) (Name k) =
      Some (map (\<lambda>d. PFloat (projr (float_cell (record_cell d k)))) ds)" by (simp add: column_def)
  with r h show ?thesis by blast
qed

theorem predict_float_columns_witness:
  "\<exists>df. read_json_lines \<lparr>files = Map.empty, urls = Map.empty\<rparr> (PStr (jsonl spec_batch)) df_schema = Inr df \<and>
     column df (Name ''gre'') = Some [PFloat (Fin 32 1), PFloat (Fin 3 2)] \<and>
     handle (\<lambda>(m::unit) df. Inr (NdArray [PInt 1, PInt 0])) () \<lparr>files = Map.empty, urls = Map.empty\<rparr>
       (predict_req (dumps py_dumps_opts (PStr (jsonl spec_batch)))) =
     finish (res_bind (res_bind ((\<lambda>(m::unit) df. Inr (NdArray [PInt 1, PInt 0])) () df) tolist)
       (\<lambda>ps. Inr (RvDict (PDict [(''predictions'', PList ps)]) 200)))"
proof -
  have a: "\<forall>d\<in>set spec_batch. wf_val (PDict d) \<and> doubles_ok (PDict d)"
    by (simp add: is_double_def dec_overflows_def dec_underflows_def)
  have b: "\<forall>d\<in>set spec_batch. \<forall>(k, v)\<in>set d. int_fits v"
    by (simp add: int_fits_def dec_overflows_def)
  have c: "files \<lparr>files = Map.empty, urls = Map.empty\<rparr> (jsonl spec_batch) = None" by simp
  have k: "''gre'' \<in> {''gre'', ''gpa''}" by simp
  have h: "''gre'' \<in> set (concat (map (map fst) spec_batch))" by simp
  have v: "\<forall>d\<in>set spec_batch. \<exists>f. float_cell (record_cell d ''gre'') = Inr f"
    by (simp add: record_cell_def dec_overflows_def)
  have e: "map (\<lambda>d. PFloat (projr (float_cell (record_cell d ''gre'')))) spec_batch =
      [PFloat (Fin 32 1), PFloat (Fin 3 2)]" by code_simp
  have w: "\<exists>df. read_json_lines \<lparr>files = Map.empty, urls = Map.empty\<rparr> (PStr (jsonl spec_batch)) df_schema = Inr df \<and>
     column df (Name ''gre'') = Some (map (\<lambda>d. PFloat (projr (float_cell (record_cell d ''gre'')))) spec_batch) \<and>
     handle (\<lambda>(m::unit) df. Inr (NdArray [PInt 1, PInt 0])) () \<lparr>files = Map.empty, urls = Map.empty\<rparr>
       (predict_req (dumps py_dumps_opts (PStr (jsonl spec_batch)))) =
     finish (res_bind (res_bind ((\<lambda>(m::unit) df. Inr (NdArray [PInt 1, PInt 0])) () df) tolist)
       (\<lambda>ps. Inr (RvDict (PDict [(''predictions'', PList ps)]) 200)))"
    by (rule predict_float_columns [OF a b c k h v])
  show ?thesis by (rule w [unfolded e])
qed

text \<open>
  C8. A record that lacks a field gets NaN in that field's column, and the request is
  still answered by the model; no error tells the client that a field is missing.
\<close>

theorem predict_missing_field:
  assumes "\<forall>d\<in>set ds. wf_val (PDict d) \<and> doubles_ok (PDict d)"
    and "\<forall>d\<in>set ds. \<forall>(k, v)\<in>set d. int_fits v" and "files env (jsonl ds) = None"
    and i: "i < length ds" and miss: "map_of (ds ! i) ''gpa'' = None"
    and has: "''gpa'' \<in> set (concat (map (map fst) ds))"
  shows "\<exists>df c. read_json_lines env (PStr (jsonl ds)) df_schema = Inr df \<and>
    column df (Name ''gpa'') = Some c \<and> c ! i = PFloat NaN \<and>
    handle P m env (predict_req (dumps py_dumps_opts (PStr (jsonl ds)))) =
      finish (res_bind (res_bind (P m df) tolist) (\<lambda>ps. Inr (RvDict (PDict [(''predictions'', PList ps)]) 200)))"
proof -
  have ne: "ds \<noteq> []" using i by auto
  obtain cs where c: "convert_columns df_schema (columns (frame_of_records ds)) = Inr cs"
    and r: "read_json_lines env (PStr (jsonl ds)) df_schema = Inr ((frame_of_records ds)\<lparr>columns := cs\<rparr>)"
    and h: "handle P m env (predict_req (dumps py_dumps_opts (PStr (jsonl ds)))) =
      finish (res_bind (res_bind (P m ((frame_of_records ds)\<lparr>columns := cs\<rparr>)) tolist)
        (\<lambda>ps. Inr (RvDict (PDict [(''predictions'', PList ps)]) 200)))"
    by (rule batch_request [OF ne assms(1-3)])
  obtain c' where c': "map_of cs (Name ''gpa'') = Some c'"
    and t: "try_convert Float64 (map (\<lambda>d. record_cell d ''gpa'') ds) = Inr c'"
    using convert_columns_lookup [OF c records_column [OF has] df_schema_gre_gpa(2)] by blast
  have "map (\<lambda>d. record_cell d ''gpa'') ds ! i = PFloat NaN"
    using i miss by (simp add: record_cell_def)
  then have n: "c' ! i = PFloat NaN"
    using try_convert_keeps_float [OF t] i by simp
  have "column ((frame_of_records ds)\<lparr>columns := cs\<rparr>) (Name ''gpa'') = Some c'"
    using c' by (simp add: column_def)
  with r h n show ?thesis by blast
qed

theorem predict_missing_field_witness:
  "\<exists>df c. read_json_lines \<lparr>files = Map.empty, urls = Map.empty\<rparr> (PStr (jsonl gpa_missing)) df_schema = Inr df \<and>
     column df (Name ''gpa'') = Some c \<and> c ! 1 = PFloat NaN \<and>
     handle (\<lambda>(m::unit) df. Inr (NdArray [PInt 1, PInt 0])) () \<lparr>files = Map.empty, urls = Map.empty\<rparr>
       (predict_req (dumps py_dumps_opts (PStr (jsonl gpa_missing)))) =
     finish (res_bind (res_bind ((\<lambda>(m::unit) df. Inr (NdArray [PInt 1, PInt 0])) () df) tolist)
       (\<lambda>ps. Inr (RvDict (PDict [(''predictions'', PList ps)]) 200)))"
proof -
  have a: "\<forall>d\<in>set gpa_missing. wf_val (PDict d) \<and> doubles_ok (PDict d)"
    by (simp add: is_double_def dec_overflows_def dec_underflows_def)
  have b: "\<forall>d\<in>set gpa_missing. \<forall>(k, v)\<in>set d. int_fits v"
    by (simp add: int_fits_def dec_overflows_def)
  have c: "files \<lparr>files = Map.empty, urls = Map.empty\<rparr> (jsonl gpa_missing) = None" by simp
  have i: "1 < length gpa_missing" by simp
  have n: "map_of (gpa_missing ! 1) ''gpa'' = None" by simp
  have h: "''gpa'' \<in> set (concat (map (map fst) gpa_missing))" by simp
  show ?thesis
    by (rule predict_missing_field [OF a b c i n h, where P = "\<lambda>(m::unit) df. Inr (NdArray [PInt 1, PInt 0])" and m = "()"])
qed

text \<open>
  C9. A string in \<open>gre\<close> that \<open>float()\<close> cannot read makes pandas swallow the
  \<open>ValueError\<close> and keep the whole column unconverted, integers of the other records
  included; the model is still called.
\<close>

theorem predict_unconvertible_field:
  assumes "\<forall>d\<in>set ds. wf_val (PDict d) \<and> doubles_ok (PDict d)"
    and ints: "\<forall>d\<in>set ds. \<forall>(k, v)\<in>set d. int_fits v" and "files env (jsonl ds) = None"
    and i: "i < length ds" and str: "map_of (ds ! i) ''gre'' = Some (PStr s)"
    and bad: "py_float_str s = Inl ValueError"
  shows "\<exists>df. read_json_lines env (PStr (jsonl ds)) df_schema = Inr df \<and>
    column df (Name ''gre'') = Some (map (\<lambda>d. record_cell d ''gre'') ds) \<and>
    handle P m env (predict_req (dumps py_dumps_opts (PStr (jsonl ds)))) =
      finish (res_bind (res_bind (P m df) tolist) (\<lambda>ps. Inr (RvDict (PDict [(''predictions'', PList ps)]) 200)))"
proof -
  have ne: "ds \<noteq> []" using i by auto
  obtain cs where c: "convert_columns df_schema (columns (frame_of_records ds)) = Inr cs"
    and r: "read_json_lines env (PStr (jsonl ds)) df_schema = Inr ((frame_of_records ds)\<lparr>columns := cs\<rparr>)"
    and h: "handle P m env (predict_req (dumps py_dumps_opts (PStr (jsonl ds)))) =
      finish (res_bind (res_bind (P m ((frame_of_records ds)\<lparr>columns := cs\<rparr>)) tolist)
        (\<lambda>ps. Inr (RvDict (PDict [(''predictions'', PList ps)]) 200)))"
    by (rule batch_request [OF ne assms(1-3)])
  have has: "''gre'' \<in> set (concat (map (map fst) ds))" using record_key_in [OF i str] .
  obtain c' where c': "map_of cs (Name ''gre'') = Some c'"
    and t: "try_convert Float64 (map (\<lambda>d. record_cell d ''gre'') ds) = Inr c'"
    using convert_columns_lookup [OF c records_column [OF has] df_schema_gre_gpa(1)] by blast
  have "map (\<lambda>d. record_cell d ''gre'') ds ! i = PStr s"
    using i str by (simp add: record_cell_def)
  then have x: "PStr s \<in> set (map (\<lambda>d. record_cell d ''gre'') ds)"
    using nth_mem [of i "map (\<lambda>d. record_cell d ''gre'') ds"] i by simp
  have "float_cell (PStr s) = Inl ValueError" using bad by simp
  from try_convert_keeps_column [OF x this record_column_fits [OF ints has]] t
  have "c' = map (\<lambda>d. record_cell d ''gre'') ds" by simp
  with c' have "column ((frame_of_records ds)\<lparr>columns := cs\<rparr>) (Name ''gre'') =
      Some (map (\<lambda>d. record_cell d ''gre'') ds)" by (simp add: column_def)
  with r h show ?thesis by blast
qed

theorem predict_unconvertible_field_witness:
  "\<exists>df. read_json_lines \<lparr>files = Map.empty, urls = Map.empty\<rparr> (PStr (jsonl gre_text)) df_schema = Inr df \<and>
     column df (Name ''gre'') = Some (map (\<lambda>d. record_cell d ''gre'') gre_text) \<and>
     handle (\<lambda>(m::unit) df. Inr (NdArray [PInt 1, PInt 0])) () \<lparr>files = Map.empty, urls = Map.empty\<rparr>
       (predict_req (dumps py_dumps_opts (PStr (jsonl gre_text)))) =
     finish (res_bind (res_bind ((\<lambda>(m::unit) df. Inr (NdArray [PInt 1, PInt 0])) () df) tolist)
       (\<lambda>ps. Inr (RvDict (PDict [(''predictions'', PList ps)]) 200)))"
proof -
  have a: "\<forall>d\<in>set gre_text. wf_val (PDict d) \<and> doubles_ok (PDict d)"
    by (simp add: is_double_def dec_overflows_def dec_underflows_def)
  have b: "\<forall>d\<in>set gre_text. \<forall>(k, v)\<in>set d. int_fits v"
    by (simp add: int_fits_def dec_overflows_def)
  have c: "files \<lparr>files = Map.empty, urls = Map.empty\<rparr> (jsonl gre_text) = None" by simp
  have i: "0 < length gre_text" by simp
  have s: "map_of (gre_text ! 0) ''gre'' = Some (PStr ''n/a'')" by simp
  have v: "py_float_str ''n/a'' = Inl ValueError" by code_simp
  show ?thesis
    by (rule predict_unconvertible_field [OF a b c i s v, where P = "\<lambda>(m::unit) df. Inr (NdArray [PInt 1, PInt 0])" and m = "()"])
qed

section \<open>The shape of every response\<close>






end
