(* ===== verification/Server.thy ===== *)
theory Server
  imports App
begin

text \<open>
  The process around the routes: the module's top level (lines 1 to 10) and the main
  block (lines 37 to 41) under the Werkzeug development server. \<open>import_module\<close> is
  the import, whose model load may raise; \<open>boot\<close> lists the events of one start of the
  script, with the reloader that \<open>debug=True\<close> turns on. \<open>boot\<close> is a
  \<^theory_text>\<open>function\<close>: the reloader's child is started with \<open>WERKZEUG_RUN_MAIN=true\<close>,
  which is the termination measure.
\<close>

section \<open>The module's top level (lines 1 to 10)\<close>

text \<open>\<open>mlflow.pyfunc.load_model\<close>: loading may raise (a missing or corrupt artifact).\<close>

type_synonym 'm loader = "string \<Rightarrow> 'm result"

record 'm module =
  app_name :: string
  loaded_model :: 'm

definition import_module :: "'m loader \<Rightarrow> 'm module result" where
  "import_module load_model =
     res_bind (load_model model_uri) (\<lambda>model. Inr \<lparr>app_name = api_name, loaded_model = model\<rparr>)"

section \<open>Starting the script (lines 37 to 41)\<close>

text \<open>
  Line 40 evaluates \<open>int(os.environ.get("PORT", 8080))\<close> before \<open>api.run\<close> is entered,
  so a \<open>PORT\<close> that is not an integer raises \<open>ValueError\<close> first. \<open>app.run\<close> then
  returns at once when \<open>FLASK_RUN_FROM_CLI\<close> is \<open>"true"\<close>. Otherwise
  \<open>api.run(debug=True)\<close> runs Werkzeug's \<open>run_simple\<close> with the reloader. Unless
  \<open>WERKZEUG_RUN_MAIN\<close> is \<open>"true"\<close>, the process is the reloader's parent: it binds the
  socket (\<open>prepare_socket\<close>, where a port outside 0 to 65535 raises \<open>OverflowError\<close>),
  publishes it in \<open>WERKZEUG_SERVER_FD\<close> and starts the same script again as a child with
  \<open>WERKZEUG_RUN_MAIN=true\<close>; the child imports the module (loading the model again) and
  serves on the inherited socket. The restarts on a changed source file are not modelled:
  the events below are those of a start with no file change.
\<close>

datatype boot_event = LoadModel | BindSocket "16 word" | SpawnChild | ServeForever "16 word" | Exit py_error

definition run_main :: "string" where
  "run_main = ''WERKZEUG_RUN_MAIN''"

function boot :: "'m loader \<Rightarrow> bool \<Rightarrow> (string \<rightharpoonup> string) \<Rightarrow> boot_event list" where
  "boot load_model is_main environ =
     LoadModel # (case import_module load_model of
        Inl e \<Rightarrow> [Exit e]
      | Inr md \<Rightarrow>
          if \<not> is_main then []
          else (case port_setting environ of
                  Inl e \<Rightarrow> [Exit e]
                | Inr p \<Rightarrow>
                    if environ ''FLASK_RUN_FROM_CLI'' = Some ''true'' then []
                    else (case run_config_of environ of
                            Inl e \<Rightarrow> [Exit e]
                          | Inr cfg \<Rightarrow>
                              if environ run_main = Some ''true'' then [ServeForever (port cfg)]
                              else if debug cfg then
                                BindSocket (port cfg) # SpawnChild #
                                  boot load_model True (environ(run_main \<mapsto> ''true''))
                              else [BindSocket (port cfg), ServeForever (port cfg)])))"
  by pat_completeness auto
termination
  by (relation "measure (\<lambda>(load_model, is_main, environ). if environ run_main = Some ''true'' then 0 else 1)")
    (auto simp: run_main_def)

declare boot.simps [simp del]

section \<open>Claims about the start\<close>

lemma port_setting_other: "k \<noteq> ''PORT'' \<Longrightarrow> port_setting (E(k \<mapsto> v)) = port_setting E"
  by (simp add: port_setting_def)

lemma run_config_of_other: "k \<noteq> ''PORT'' \<Longrightarrow> run_config_of (E(k \<mapsto> v)) = run_config_of E"
  by (simp add: run_config_of_def port_setting_other)

lemma run_config_of_parts:
  "run_config_of E = Inr cfg \<Longrightarrow> debug cfg \<and> (\<exists>p. port_setting E = Inr p)"
  by (auto simp: run_config_of_def res_bind_eq_Inr)

text \<open>
  C11. Started as a script with \<open>debug=True\<close>, a model that loads and a valid \<open>PORT\<close>, the
  process loads the model, binds the port and starts the reloader's child, which loads the
  model a second time and serves on the same port.
\<close>

theorem boot_debug_run:
  assumes "import_module L = Inr md" and "run_config_of E = Inr cfg"
    and "E run_main = None" and "E ''FLASK_RUN_FROM_CLI'' = None"
  shows "boot L True E = [LoadModel, BindSocket (port cfg), SpawnChild, LoadModel, ServeForever (port cfg)]"
proof -
  let ?E = "E(run_main \<mapsto> ''true'')"
  obtain p where p: "port_setting E = Inr p" and d: "debug cfg" using run_config_of_parts [OF assms(2)] by blast
  have c: "run_config_of ?E = Inr cfg" using assms(2) by (simp add: run_config_of_other run_main_def)
  have p': "port_setting ?E = Inr p" using p by (simp add: port_setting_other run_main_def)
  have "boot L True ?E = [LoadModel, ServeForever (port cfg)]"
    using assms(1,4) c p' by (subst boot.simps) (simp add: run_main_def)
  then show ?thesis
    using assms p d by (simp add: boot.simps [of L True E])
qed

theorem boot_debug_run_witness:
  "boot (\<lambda>uri. Inr ()) True Map.empty = [LoadModel, BindSocket 8080, SpawnChild, LoadModel, ServeForever 8080]"
proof -
  have "import_module (\<lambda>uri. Inr ()) = Inr \<lparr>app_name = api_name, loaded_model = ()\<rparr>"
    by (simp add: import_module_def)
  moreover have "run_config_of Map.empty = Inr \<lparr>host = ''0.0.0.0'', port = 8080, debug = True\<rparr>"
    by (simp add: run_config_of_def port_setting_def bind_port_def)
  moreover have "(Map.empty :: string \<rightharpoonup> string) run_main = None"
    "(Map.empty :: string \<rightharpoonup> string) ''FLASK_RUN_FROM_CLI'' = None"
    by simp_all
  ultimately show ?thesis using boot_debug_run by fastforce
qed

text \<open>
  C12. A \<open>PORT\<close> that \<open>int()\<close> rejects stops the script with that \<open>ValueError\<close> right
  after the model has loaded, before any socket is bound or child started, and even when
  \<open>FLASK_RUN_FROM_CLI\<close> would make \<open>app.run\<close> return: line 40 runs before \<open>api.run\<close>.
\<close>

theorem boot_bad_port:
  assumes "import_module L = Inr md" and "E ''PORT'' = Some s" and "py_int s = Inl e"
  shows "boot L True E = [LoadModel, Exit e]"
  using assms by (simp add: boot.simps [of L True E] port_setting_def)

theorem boot_bad_port_witness:
  "boot (\<lambda>uri. Inr ()) True [''PORT'' \<mapsto> ''80a'', ''FLASK_RUN_FROM_CLI'' \<mapsto> ''true''] = [LoadModel, Exit ValueError]"
proof -
  have "py_int ''80a'' = Inl ValueError" by code_simp
  moreover have "import_module (\<lambda>uri. Inr ()) = Inr \<lparr>app_name = api_name, loaded_model = ()\<rparr>"
    by (simp add: import_module_def)
  ultimately show ?thesis
    using boot_bad_port [where E = "[''PORT'' \<mapsto> ''80a'', ''FLASK_RUN_FROM_CLI'' \<mapsto> ''true'']"
        and s = "''80a''" and e = ValueError] by simp
qed

end
